theory Spec2Isabelle
  imports Complex_Main "HOL-Library.Word"
begin

unbundle bit_operations_syntax

section \<open>Bytes\<close>

type_synonym byte = "8 word"
type_synonym bytes = "byte list"

section \<open>The platform primitives used by the cipher\<close>

text \<open>
  \<^verbatim>\<open>AES256Cipher.ts\<close> imports \<^verbatim>\<open>createCipheriv\<close>, \<^verbatim>\<open>createDecipheriv\<close>,
  \<^verbatim>\<open>randomBytes\<close> and \<^verbatim>\<open>createHash\<close> from the crypto module of Node.js. That module is
  not part of the repository; the specification calls these the required external
  collaborators (a 256-bit hash, a secure random-byte generator, an AES-256 engine in CBC
  mode with PKCS7 padding). They are modelled here from the specification and the standards
  it names (FIPS 197, FIPS 180-4, SP 800-38A, RFC 5652), and pinned down by the test
  vectors of \<^verbatim>\<open>AES256Cipher.nist.test.ts\<close>.
\<close>

subsection \<open>AES-256 on one block (FIPS 197)\<close>

text \<open>Modelled from the spec: multiplication by \<open>x\<close> in the AES field, and by the constants
  of the column matrices (crypto module of Node.js, absent from src/).\<close>

definition xtime :: "byte \<Rightarrow> byte" where
  "xtime x = (if bit x 7 then push_bit 1 x XOR 0x1b else push_bit 1 x)"

definition mul2 :: "byte \<Rightarrow> byte" where
  "mul2 x = xtime x"

definition mul3 :: "byte \<Rightarrow> byte" where
  "mul3 x = xtime x XOR x"

definition mul9 :: "byte \<Rightarrow> byte" where
  "mul9 x = xtime (xtime (xtime x)) XOR x"

definition mul11 :: "byte \<Rightarrow> byte" where
  "mul11 x = xtime (xtime (xtime x)) XOR xtime x XOR x"

definition mul13 :: "byte \<Rightarrow> byte" where
  "mul13 x = xtime (xtime (xtime x)) XOR xtime (xtime x) XOR x"

definition mul14 :: "byte \<Rightarrow> byte" where
  "mul14 x = xtime (xtime (xtime x)) XOR xtime (xtime x) XOR xtime x"

text \<open>Modelled from the spec: the AES substitution table and its inverse (crypto module of
  Node.js, absent from src/).\<close>

definition sbox_table :: "byte list" where
  "sbox_table =
    [
     0x63, 0x7c, 0x77, 0x7b, 0xf2, 0x6b, 0x6f, 0xc5, 0x30, 0x01, 0x67, 0x2b, 0xfe, 0xd7, 0xab, 0x76,
     0xca, 0x82, 0xc9, 0x7d, 0xfa, 0x59, 0x47, 0xf0, 0xad, 0xd4, 0xa2, 0xaf, 0x9c, 0xa4, 0x72, 0xc0,
     0xb7, 0xfd, 0x93, 0x26, 0x36, 0x3f, 0xf7, 0xcc, 0x34, 0xa5, 0xe5, 0xf1, 0x71, 0xd8, 0x31, 0x15,
     0x04, 0xc7, 0x23, 0xc3, 0x18, 0x96, 0x05, 0x9a, 0x07, 0x12, 0x80, 0xe2, 0xeb, 0x27, 0xb2, 0x75,
     0x09, 0x83, 0x2c, 0x1a, 0x1b, 0x6e, 0x5a, 0xa0, 0x52, 0x3b, 0xd6, 0xb3, 0x29, 0xe3, 0x2f, 0x84,
     0x53, 0xd1, 0x00, 0xed, 0x20, 0xfc, 0xb1, 0x5b, 0x6a, 0xcb, 0xbe, 0x39, 0x4a, 0x4c, 0x58, 0xcf,
     0xd0, 0xef, 0xaa, 0xfb, 0x43, 0x4d, 0x33, 0x85, 0x45, 0xf9, 0x02, 0x7f, 0x50, 0x3c, 0x9f, 0xa8,
     0x51, 0xa3, 0x40, 0x8f, 0x92, 0x9d, 0x38, 0xf5, 0xbc, 0xb6, 0xda, 0x21, 0x10, 0xff, 0xf3, 0xd2,
     0xcd, 0x0c, 0x13, 0xec, 0x5f, 0x97, 0x44, 0x17, 0xc4, 0xa7, 0x7e, 0x3d, 0x64, 0x5d, 0x19, 0x73,
     0x60, 0x81, 0x4f, 0xdc, 0x22, 0x2a, 0x90, 0x88, 0x46, 0xee, 0xb8, 0x14, 0xde, 0x5e, 0x0b, 0xdb,
     0xe0, 0x32, 0x3a, 0x0a, 0x49, 0x06, 0x24, 0x5c, 0xc2, 0xd3, 0xac, 0x62, 0x91, 0x95, 0xe4, 0x79,
     0xe7, 0xc8, 0x37, 0x6d, 0x8d, 0xd5, 0x4e, 0xa9, 0x6c, 0x56, 0xf4, 0xea, 0x65, 0x7a, 0xae, 0x08,
     0xba, 0x78, 0x25, 0x2e, 0x1c, 0xa6, 0xb4, 0xc6, 0xe8, 0xdd, 0x74, 0x1f, 0x4b, 0xbd, 0x8b, 0x8a,
     0x70, 0x3e, 0xb5, 0x66, 0x48, 0x03, 0xf6, 0x0e, 0x61, 0x35, 0x57, 0xb9, 0x86, 0xc1, 0x1d, 0x9e,
     0xe1, 0xf8, 0x98, 0x11, 0x69, 0xd9, 0x8e, 0x94, 0x9b, 0x1e, 0x87, 0xe9, 0xce, 0x55, 0x28, 0xdf,
     0x8c, 0xa1, 0x89, 0x0d, 0xbf, 0xe6, 0x42, 0x68, 0x41, 0x99, 0x2d, 0x0f, 0xb0, 0x54, 0xbb, 0x16
    ]"

definition inv_sbox_table :: "byte list" where
  "inv_sbox_table =
    [
     0x52, 0x09, 0x6a, 0xd5, 0x30, 0x36, 0xa5, 0x38, 0xbf, 0x40, 0xa3, 0x9e, 0x81, 0xf3, 0xd7, 0xfb,
     0x7c, 0xe3, 0x39, 0x82, 0x9b, 0x2f, 0xff, 0x87, 0x34, 0x8e, 0x43, 0x44, 0xc4, 0xde, 0xe9, 0xcb,
     0x54, 0x7b, 0x94, 0x32, 0xa6, 0xc2, 0x23, 0x3d, 0xee, 0x4c, 0x95, 0x0b, 0x42, 0xfa, 0xc3, 0x4e,
     0x08, 0x2e, 0xa1, 0x66, 0x28, 0xd9, 0x24, 0xb2, 0x76, 0x5b, 0xa2, 0x49, 0x6d, 0x8b, 0xd1, 0x25,
     0x72, 0xf8, 0xf6, 0x64, 0x86, 0x68, 0x98, 0x16, 0xd4, 0xa4, 0x5c, 0xcc, 0x5d, 0x65, 0xb6, 0x92,
     0x6c, 0x70, 0x48, 0x50, 0xfd, 0xed, 0xb9, 0xda, 0x5e, 0x15, 0x46, 0x57, 0xa7, 0x8d, 0x9d, 0x84,
     0x90, 0xd8, 0xab, 0x00, 0x8c, 0xbc, 0xd3, 0x0a, 0xf7, 0xe4, 0x58, 0x05, 0xb8, 0xb3, 0x45, 0x06,
     0xd0, 0x2c, 0x1e, 0x8f, 0xca, 0x3f, 0x0f, 0x02, 0xc1, 0xaf, 0xbd, 0x03, 0x01, 0x13, 0x8a, 0x6b,
     0x3a, 0x91, 0x11, 0x41, 0x4f, 0x67, 0xdc, 0xea, 0x97, 0xf2, 0xcf, 0xce, 0xf0, 0xb4, 0xe6, 0x73,
     0x96, 0xac, 0x74, 0x22, 0xe7, 0xad, 0x35, 0x85, 0xe2, 0xf9, 0x37, 0xe8, 0x1c, 0x75, 0xdf, 0x6e,
     0x47, 0xf1, 0x1a, 0x71, 0x1d, 0x29, 0xc5, 0x89, 0x6f, 0xb7, 0x62, 0x0e, 0xaa, 0x18, 0xbe, 0x1b,
     0xfc, 0x56, 0x3e, 0x4b, 0xc6, 0xd2, 0x79, 0x20, 0x9a, 0xdb, 0xc0, 0xfe, 0x78, 0xcd, 0x5a, 0xf4,
     0x1f, 0xdd, 0xa8, 0x33, 0x88, 0x07, 0xc7, 0x31, 0xb1, 0x12, 0x10, 0x59, 0x27, 0x80, 0xec, 0x5f,
     0x60, 0x51, 0x7f, 0xa9, 0x19, 0xb5, 0x4a, 0x0d, 0x2d, 0xe5, 0x7a, 0x9f, 0x93, 0xc9, 0x9c, 0xef,
     0xa0, 0xe0, 0x3b, 0x4d, 0xae, 0x2a, 0xf5, 0xb0, 0xc8, 0xeb, 0xbb, 0x3c, 0x83, 0x53, 0x99, 0x61,
     0x17, 0x2b, 0x04, 0x7e, 0xba, 0x77, 0xd6, 0x26, 0xe1, 0x69, 0x14, 0x63, 0x55, 0x21, 0x0c, 0x7d
    ]"

definition sbox :: "byte \<Rightarrow> byte" where
  "sbox x = sbox_table ! unat x"

definition inv_sbox :: "byte \<Rightarrow> byte" where
  "inv_sbox x = inv_sbox_table ! unat x"

definition sub_bytes :: "bytes \<Rightarrow> bytes" where
  "sub_bytes s = map sbox s"

definition inv_sub_bytes :: "bytes \<Rightarrow> bytes" where
  "inv_sub_bytes s = map inv_sbox s"

text \<open>Modelled from the spec: the AES state is held column by column, byte \<open>r + 4 * c\<close> is
  row \<open>r\<close> of column \<open>c\<close>; row \<open>r\<close> is rotated left by \<open>r\<close> columns. Anything that is not a
  16-byte state is left alone.\<close>

fun shift_rows :: "bytes \<Rightarrow> bytes" where
  "shift_rows [s0, s1, s2, s3, s4, s5, s6, s7, s8, s9, s10, s11, s12, s13, s14, s15] =
     [s0, s5, s10, s15, s4, s9, s14, s3, s8, s13, s2, s7, s12, s1, s6, s11]"
| "shift_rows s = s"

fun inv_shift_rows :: "bytes \<Rightarrow> bytes" where
  "inv_shift_rows [s0, s1, s2, s3, s4, s5, s6, s7, s8, s9, s10, s11, s12, s13, s14, s15] =
     [s0, s13, s10, s7, s4, s1, s14, s11, s8, s5, s2, s15, s12, s9, s6, s3]"
| "inv_shift_rows s = s"

text \<open>Modelled from the spec: each column is multiplied by the fixed AES matrix, and by its
  inverse for decryption.\<close>

definition mix_column :: "byte \<Rightarrow> byte \<Rightarrow> byte \<Rightarrow> byte \<Rightarrow> bytes" where
  "mix_column a b c d =
     [mul2 a XOR mul3 b XOR c XOR d,
      a XOR mul2 b XOR mul3 c XOR d,
      a XOR b XOR mul2 c XOR mul3 d,
      mul3 a XOR b XOR c XOR mul2 d]"

definition inv_mix_column :: "byte \<Rightarrow> byte \<Rightarrow> byte \<Rightarrow> byte \<Rightarrow> bytes" where
  "inv_mix_column a b c d =
     [mul14 a XOR mul11 b XOR mul13 c XOR mul9 d,
      mul9 a XOR mul14 b XOR mul11 c XOR mul13 d,
      mul13 a XOR mul9 b XOR mul14 c XOR mul11 d,
      mul11 a XOR mul13 b XOR mul9 c XOR mul14 d]"

fun mix_columns :: "bytes \<Rightarrow> bytes" where
  "mix_columns (a # b # c # d # rest) = mix_column a b c d @ mix_columns rest"
| "mix_columns s = s"

fun inv_mix_columns :: "bytes \<Rightarrow> bytes" where
  "inv_mix_columns (a # b # c # d # rest) = inv_mix_column a b c d @ inv_mix_columns rest"
| "inv_mix_columns s = s"

text \<open>Modelled from the spec: the key schedule of AES-256. The 32 key bytes are the words
  \<open>w 0\<close> to \<open>w 7\<close>; then \<open>w i = w (i - 8) XOR t\<close>, where \<open>t\<close> is
  \<open>SubWord (RotWord (w (i - 1))) XOR Rcon (i div 8)\<close> when \<open>i mod 8 = 0\<close>,
  \<open>SubWord (w (i - 1))\<close> when \<open>i mod 8 = 4\<close>, and \<open>w (i - 1)\<close> otherwise. One step of
  \<open>next_key_block\<close> computes eight consecutive words from the eight before them; the
  schedule is the first 60 words, cut into 15 round keys of four words.\<close>

type_synonym aes_word = "byte \<times> byte \<times> byte \<times> byte"

fun xor_word :: "aes_word \<Rightarrow> aes_word \<Rightarrow> aes_word" where
  "xor_word (a, b, c, d) (e, f, g, h) = (a XOR e, b XOR f, c XOR g, d XOR h)"

fun sub_word :: "aes_word \<Rightarrow> aes_word" where
  "sub_word (a, b, c, d) = (sbox a, sbox b, sbox c, sbox d)"

fun rot_word :: "aes_word \<Rightarrow> aes_word" where
  "rot_word (a, b, c, d) = (b, c, d, a)"

fun word_bytes :: "aes_word \<Rightarrow> bytes" where
  "word_bytes (a, b, c, d) = [a, b, c, d]"

fun key_words :: "bytes \<Rightarrow> aes_word list" where
  "key_words (a # b # c # d # rest) = (a, b, c, d) # key_words rest"
| "key_words rest = []"

fun next_key_block :: "byte \<Rightarrow> aes_word list \<Rightarrow> aes_word list" where
  "next_key_block rc [k0, k1, k2, k3, k4, k5, k6, k7] =
     (let n0 = xor_word k0 (xor_word (sub_word (rot_word k7)) (rc, 0, 0, 0));
          n1 = xor_word k1 n0;
          n2 = xor_word k2 n1;
          n3 = xor_word k3 n2;
          n4 = xor_word k4 (sub_word n3);
          n5 = xor_word k5 n4;
          n6 = xor_word k6 n5;
          n7 = xor_word k7 n6
      in [n0, n1, n2, n3, n4, n5, n6, n7])"
| "next_key_block rc ks = []"

fun key_blocks :: "byte list \<Rightarrow> aes_word list \<Rightarrow> aes_word list" where
  "key_blocks [] ks = ks"
| "key_blocks (rc # rcs) ks = ks @ key_blocks rcs (next_key_block rc ks)"

definition rcons :: "byte list" where
  "rcons = [0x01, 0x02, 0x04, 0x08, 0x10, 0x20, 0x40]"

fun round_keys :: "aes_word list \<Rightarrow> bytes list" where
  "round_keys (a # b # c # d # rest) =
     (word_bytes a @ word_bytes b @ word_bytes c @ word_bytes d) # round_keys rest"
| "round_keys rest = []"

definition key_expansion :: "bytes \<Rightarrow> bytes list" where
  "key_expansion key = round_keys (take 60 (key_blocks rcons (key_words key)))"

definition add_round_key :: "bytes \<Rightarrow> bytes \<Rightarrow> bytes" where
  "add_round_key k s = map2 (XOR) s k"

text \<open>Modelled from the spec: the AES cipher and inverse cipher on one 16-byte block. After
  the first round key, every round key but the last is used in a full round
  (SubBytes, ShiftRows, MixColumns, AddRoundKey); the last round has no MixColumns. The
  inverse cipher undoes the rounds from the last to the first.\<close>

fun cipher_rounds :: "bytes list \<Rightarrow> bytes \<Rightarrow> bytes" where
  "cipher_rounds [] s = s"
| "cipher_rounds [k] s = add_round_key k (shift_rows (sub_bytes s))"
| "cipher_rounds (k # ks) s =
     cipher_rounds ks (add_round_key k (mix_columns (shift_rows (sub_bytes s))))"

fun inv_cipher_rounds :: "bytes list \<Rightarrow> bytes \<Rightarrow> bytes" where
  "inv_cipher_rounds [] s = s"
| "inv_cipher_rounds [k] s = inv_sub_bytes (inv_shift_rows (add_round_key k s))"
| "inv_cipher_rounds (k # ks) s =
     inv_sub_bytes (inv_shift_rows (inv_mix_columns (add_round_key k (inv_cipher_rounds ks s))))"

definition aes256_encrypt_block :: "bytes \<Rightarrow> bytes \<Rightarrow> bytes" where
  "aes256_encrypt_block key blk =
     (case key_expansion key of
        [] \<Rightarrow> blk
      | k0 # ks \<Rightarrow> cipher_rounds ks (add_round_key k0 blk))"

definition aes256_decrypt_block :: "bytes \<Rightarrow> bytes \<Rightarrow> bytes" where
  "aes256_decrypt_block key blk =
     (case key_expansion key of
        [] \<Rightarrow> blk
      | k0 # ks \<Rightarrow> add_round_key k0 (inv_cipher_rounds ks blk))"

subsection \<open>SHA-256 (FIPS 180-4)\<close>

text \<open>Modelled from the spec: the 256-bit hash behind \<^verbatim>\<open>createHash('sha256')\<close> (crypto module
  of Node.js, absent from src/). Words are 32 bits, addition wraps.\<close>

type_synonym word32 = "32 word"

definition rotr :: "nat \<Rightarrow> word32 \<Rightarrow> word32" where
  "rotr n x = drop_bit n x OR push_bit (32 - n) (take_bit n x)"

definition ch :: "word32 \<Rightarrow> word32 \<Rightarrow> word32 \<Rightarrow> word32" where
  "ch x y z = (x AND y) XOR (NOT x AND z)"

definition maj :: "word32 \<Rightarrow> word32 \<Rightarrow> word32 \<Rightarrow> word32" where
  "maj x y z = (x AND y) XOR (x AND z) XOR (y AND z)"

definition big_sigma0 :: "word32 \<Rightarrow> word32" where
  "big_sigma0 x = rotr 2 x XOR rotr 13 x XOR rotr 22 x"

definition big_sigma1 :: "word32 \<Rightarrow> word32" where
  "big_sigma1 x = rotr 6 x XOR rotr 11 x XOR rotr 25 x"

definition small_sigma0 :: "word32 \<Rightarrow> word32" where
  "small_sigma0 x = rotr 7 x XOR rotr 18 x XOR drop_bit 3 x"

definition small_sigma1 :: "word32 \<Rightarrow> word32" where
  "small_sigma1 x = rotr 17 x XOR rotr 19 x XOR drop_bit 10 x"

definition sha256_k :: "word32 list" where
  "sha256_k =
    [0x428A2F98, 0x71374491, 0xB5C0FBCF, 0xE9B5DBA5, 0x3956C25B, 0x59F111F1, 0x923F82A4, 0xAB1C5ED5,
     0xD807AA98, 0x12835B01, 0x243185BE, 0x550C7DC3, 0x72BE5D74, 0x80DEB1FE, 0x9BDC06A7, 0xC19BF174,
     0xE49B69C1, 0xEFBE4786, 0x0FC19DC6, 0x240CA1CC, 0x2DE92C6F, 0x4A7484AA, 0x5CB0A9DC, 0x76F988DA,
     0x983E5152, 0xA831C66D, 0xB00327C8, 0xBF597FC7, 0xC6E00BF3, 0xD5A79147, 0x06CA6351, 0x14292967,
     0x27B70A85, 0x2E1B2138, 0x4D2C6DFC, 0x53380D13, 0x650A7354, 0x766A0ABB, 0x81C2C92E, 0x92722C85,
     0xA2BFE8A1, 0xA81A664B, 0xC24B8B70, 0xC76C51A3, 0xD192E819, 0xD6990624, 0xF40E3585, 0x106AA070,
     0x19A4C116, 0x1E376C08, 0x2748774C, 0x34B0BCB5, 0x391C0CB3, 0x4ED8AA4A, 0x5B9CCA4F, 0x682E6FF3,
     0x748F82EE, 0x78A5636F, 0x84C87814, 0x8CC70208, 0x90BEFFFA, 0xA4506CEB, 0xBEF9A3F7, 0xC67178F2]"

type_synonym sha_state =
  "word32 \<times> word32 \<times> word32 \<times> word32 \<times> word32 \<times> word32 \<times> word32 \<times> word32"

definition sha256_init :: sha_state where
  "sha256_init =
     (0x6A09E667, 0xBB67AE85, 0x3C6EF372, 0xA54FF53A, 0x510E527F, 0x9B05688C, 0x1F83D9AB, 0x5BE0CD19)"

text \<open>Modelled from the spec: the message schedule is kept as a window of the 16 most recent
  words \<open>W (t) .. W (t + 15)\<close>; the next word is
  \<open>\<sigma>1 (W (t + 14)) + W (t + 9) + \<sigma>0 (W (t + 1)) + W t\<close>.\<close>

fun next_window :: "word32 list \<Rightarrow> word32 list" where
  "next_window [w0, w1, w2, w3, w4, w5, w6, w7, w8, w9, w10, w11, w12, w13, w14, w15] =
     [w1, w2, w3, w4, w5, w6, w7, w8, w9, w10, w11, w12, w13, w14, w15,
      small_sigma1 w14 + w9 + small_sigma0 w1 + w0]"
| "next_window ws = ws"

fun sha256_round :: "word32 \<Rightarrow> word32 \<Rightarrow> sha_state \<Rightarrow> sha_state" where
  "sha256_round k w (a, b, c, d, e, f, g, h) =
     (let t1 = h + big_sigma1 e + ch e f g + k + w;
          t2 = big_sigma0 a + maj a b c
      in (t1 + t2, a, b, c, d + t1, e, f, g))"

fun sha256_rounds :: "word32 list \<Rightarrow> word32 list \<Rightarrow> sha_state \<Rightarrow> sha_state" where
  "sha256_rounds [] ws s = s"
| "sha256_rounds (k # ks) ws s =
     sha256_rounds ks (next_window ws) (sha256_round k (case ws of [] \<Rightarrow> 0 | w # _ \<Rightarrow> w) s)"

fun add_state :: "sha_state \<Rightarrow> sha_state \<Rightarrow> sha_state" where
  "add_state (a, b, c, d, e, f, g, h) (a', b', c', d', e', f', g', h') =
     (a + a', b + b', c + c', d + d', e + e', f + f', g + g', h + h')"

text \<open>Modelled from the spec: bytes to big-endian words and back.\<close>

definition be32 :: "byte \<Rightarrow> byte \<Rightarrow> byte \<Rightarrow> byte \<Rightarrow> word32" where
  "be32 a b c d = push_bit 24 (ucast a) OR push_bit 16 (ucast b) OR push_bit 8 (ucast c) OR ucast d"

fun be_words :: "bytes \<Rightarrow> word32 list" where
  "be_words (a # b # c # d # rest) = be32 a b c d # be_words rest"
| "be_words rest = []"

definition word32_bytes :: "word32 \<Rightarrow> bytes" where
  "word32_bytes w = [ucast (drop_bit 24 w), ucast (drop_bit 16 w), ucast (drop_bit 8 w), ucast w]"

definition word64_bytes :: "64 word \<Rightarrow> bytes" where
  "word64_bytes w =
     [ucast (drop_bit 56 w), ucast (drop_bit 48 w), ucast (drop_bit 40 w), ucast (drop_bit 32 w),
      ucast (drop_bit 24 w), ucast (drop_bit 16 w), ucast (drop_bit 8 w), ucast w]"

text \<open>Modelled from the spec: the message is followed by the byte 0x80, by zero bytes up to
  56 modulo 64, and by its length in bits as a 64-bit big-endian number.\<close>

definition sha256_pad :: "bytes \<Rightarrow> bytes" where
  "sha256_pad m =
     m @ [0x80] @ replicate ((119 - length m mod 64) mod 64) 0
       @ word64_bytes (word_of_nat (8 * length m))"

definition sha256_block :: "sha_state \<Rightarrow> bytes \<Rightarrow> sha_state" where
  "sha256_block s blk = add_state s (sha256_rounds sha256_k (be_words blk) s)"

function sha256_blocks :: "sha_state \<Rightarrow> bytes \<Rightarrow> sha_state" where
  "sha256_blocks s m =
     (if m = [] then s else sha256_blocks (sha256_block s (take 64 m)) (drop 64 m))"
  by pat_completeness auto
termination
  by (relation "measure (\<lambda>(s, m). length m)") auto

declare sha256_blocks.simps [simp del]

fun state_bytes :: "sha_state \<Rightarrow> bytes" where
  "state_bytes (a, b, c, d, e, f, g, h) =
     word32_bytes a @ word32_bytes b @ word32_bytes c @ word32_bytes d @
     word32_bytes e @ word32_bytes f @ word32_bytes g @ word32_bytes h"

definition sha256 :: "bytes \<Rightarrow> bytes" where
  "sha256 m = state_bytes (sha256_blocks sha256_init (sha256_pad m))"

subsection \<open>The secure random source\<close>

text \<open>Modelled from the spec: \<^verbatim>\<open>randomBytes(n)\<close> of the crypto module of Node.js (absent from
  src/). The source is the sequence of bytes it is going to produce; a call returns the next
  \<open>n\<close> of them and leaves the rest.\<close>

type_synonym random_source = "nat \<Rightarrow> byte"

definition randomBytes :: "nat \<Rightarrow> random_source \<Rightarrow> bytes \<times> random_source" where
  "randomBytes n g = (map g [0..<n], \<lambda>i. g (i + n))"

text \<open>The source whose next bytes are the given ones (and zeros after them).\<close>

definition source_of :: "bytes \<Rightarrow> random_source" where
  "source_of bs = (\<lambda>i. if i < length bs then bs ! i else 0)"

subsection \<open>The cipher engine: AES-256-CBC with PKCS7 padding\<close>

text \<open>Modelled from the spec: the objects returned by \<^verbatim>\<open>createCipheriv\<close> and
  \<^verbatim>\<open>createDecipheriv\<close> (crypto module of Node.js, absent from src/). An engine holds its key,
  the chaining block (the IV at first, then the last ciphertext block) and the input bytes
  it has not processed yet. Creation throws for an unknown algorithm, a key that is not 32
  bytes or an IV that is not 16 bytes.\<close>

record cipher_ctx =
  ctx_key :: bytes
  ctx_chain :: bytes
  ctx_buf :: bytes

definition new_ctx :: "string \<Rightarrow> bytes \<Rightarrow> bytes \<Rightarrow> string + cipher_ctx" where
  "new_ctx algorithm key iv =
     (if algorithm \<noteq> ''aes-256-cbc'' then Inl ''Unknown cipher''
      else if length key \<noteq> 32 then Inl ''Invalid key length''
      else if length iv \<noteq> 16 then Inl ''Invalid initialization vector''
      else Inr \<lparr>ctx_key = key, ctx_chain = iv, ctx_buf = []\<rparr>)"

definition createCipheriv :: "string \<Rightarrow> bytes \<Rightarrow> bytes \<Rightarrow> string + cipher_ctx" where
  "createCipheriv algorithm key iv = new_ctx algorithm key iv"

definition createDecipheriv :: "string \<Rightarrow> bytes \<Rightarrow> bytes \<Rightarrow> string + cipher_ctx" where
  "createDecipheriv algorithm key iv = new_ctx algorithm key iv"

definition xor_bytes :: "bytes \<Rightarrow> bytes \<Rightarrow> bytes" where
  "xor_bytes a b = map2 (XOR) a b"

text \<open>Modelled from the spec: cipher block chaining over the whole 16-byte blocks at the
  front of the data. Each plaintext block is XORed with the chaining block before it is
  encrypted; each decrypted block is XORed with the chaining block. The result is the output
  and the new chaining block.\<close>

function cbc_encrypt_blocks :: "bytes \<Rightarrow> bytes \<Rightarrow> bytes \<Rightarrow> bytes \<times> bytes" where
  "cbc_encrypt_blocks key chain data =
     (if length data < 16 then ([], chain)
      else
        (let c = aes256_encrypt_block key (xor_bytes (take 16 data) chain);
             r = cbc_encrypt_blocks key c (drop 16 data)
         in (c @ fst r, snd r)))"
  by pat_completeness auto
termination
  by (relation "measure (\<lambda>(key, chain, data). length data)") auto

function cbc_decrypt_blocks :: "bytes \<Rightarrow> bytes \<Rightarrow> bytes \<Rightarrow> bytes \<times> bytes" where
  "cbc_decrypt_blocks key chain data =
     (if length data < 16 then ([], chain)
      else
        (let c = take 16 data;
             p = xor_bytes (aes256_decrypt_block key c) chain;
             r = cbc_decrypt_blocks key c (drop 16 data)
         in (p @ fst r, snd r)))"
  by pat_completeness auto
termination
  by (relation "measure (\<lambda>(key, chain, data). length data)") auto

declare cbc_encrypt_blocks.simps [simp del]
declare cbc_decrypt_blocks.simps [simp del]

text \<open>Modelled from the spec: \<^verbatim>\<open>cipher.update(data)\<close> encrypts the whole blocks available and
  keeps the rest; \<^verbatim>\<open>cipher.final()\<close> pads what is left (fewer than 16 bytes) with \<open>n\<close> bytes
  of value \<open>n\<close> up to one block and encrypts it.\<close>

definition cipher_update :: "cipher_ctx \<Rightarrow> bytes \<Rightarrow> bytes \<times> cipher_ctx" where
  "cipher_update c data =
     (let buf = ctx_buf c @ data;
          n = 16 * (length buf div 16);
          r = cbc_encrypt_blocks (ctx_key c) (ctx_chain c) (take n buf)
      in (fst r, c\<lparr>ctx_chain := snd r, ctx_buf := drop n buf\<rparr>))"

definition cipher_final :: "cipher_ctx \<Rightarrow> string + bytes" where
  "cipher_final c =
     (let n = 16 - length (ctx_buf c) mod 16;
          r = cbc_encrypt_blocks (ctx_key c) (ctx_chain c) (ctx_buf c @ replicate n (of_nat n))
      in Inr (fst r))"

text \<open>Modelled from the spec: \<^verbatim>\<open>decipher.update(data)\<close> decrypts the whole blocks available
  but holds the last one back when the data ends on a block boundary, since it may carry the
  padding; \<^verbatim>\<open>decipher.final()\<close> throws unless exactly one block is held, decrypts it, throws
  unless it ends in \<open>n\<close> bytes of value \<open>n\<close> with \<open>1 \<le> n \<le> 16\<close>, and returns the bytes before
  the padding.\<close>

definition decipher_update :: "cipher_ctx \<Rightarrow> bytes \<Rightarrow> bytes \<times> cipher_ctx" where
  "decipher_update c data =
     (let buf = ctx_buf c @ data;
          n = (if length buf mod 16 = 0 then length buf - 16 else 16 * (length buf div 16));
          r = cbc_decrypt_blocks (ctx_key c) (ctx_chain c) (take n buf)
      in (fst r, c\<lparr>ctx_chain := snd r, ctx_buf := drop n buf\<rparr>))"

definition decipher_final :: "cipher_ctx \<Rightarrow> string + bytes" where
  "decipher_final c =
     (if length (ctx_buf c) \<noteq> 16 then Inl ''wrong final block length''
      else
        (let p = fst (cbc_decrypt_blocks (ctx_key c) (ctx_chain c) (ctx_buf c));
             n = unat (last p)
         in if p = [] \<or> n = 0 \<or> 16 < n then Inl ''bad decrypt''
            else if drop (16 - n) p \<noteq> replicate n (last p) then Inl ''bad decrypt''
            else Inr (take (16 - n) p)))"

section \<open>The cipher: \<^verbatim>\<open>AES256Cipher.ts\<close>\<close>

subsection \<open>Key material\<close>

text \<open>The DEK is \<^verbatim>\<open>string | Uint8Array\<close>. A JavaScript string is a sequence of 16-bit code
  units.\<close>

type_synonym js_string = "16 word list"

datatype key_material = Text js_string | Bytes bytes

text \<open>Modelled from the spec: \<^verbatim>\<open>Buffer.from(s, 'utf-8')\<close> (Node.js, absent from src/). A
  surrogate pair is one code point; a surrogate without its partner becomes U+FFFD.\<close>

definition utf8_code_point :: "nat \<Rightarrow> bytes" where
  "utf8_code_point c =
     (if c < 0x80 then [of_nat c]
      else if c < 0x800 then [of_nat (0xC0 + c div 0x40), of_nat (0x80 + c mod 0x40)]
      else if c < 0x10000 then
        [of_nat (0xE0 + c div 0x1000), of_nat (0x80 + c div 0x40 mod 0x40), of_nat (0x80 + c mod 0x40)]
      else
        [of_nat (0xF0 + c div 0x40000), of_nat (0x80 + c div 0x1000 mod 0x40),
         of_nat (0x80 + c div 0x40 mod 0x40), of_nat (0x80 + c mod 0x40)])"

definition is_high_surrogate :: "16 word \<Rightarrow> bool" where
  "is_high_surrogate u = (0xD800 \<le> u \<and> u \<le> 0xDBFF)"

definition is_low_surrogate :: "16 word \<Rightarrow> bool" where
  "is_low_surrogate u = (0xDC00 \<le> u \<and> u \<le> 0xDFFF)"

fun utf8_encode :: "js_string \<Rightarrow> bytes" where
  "utf8_encode [] = []"
| "utf8_encode [u] =
     (if is_high_surrogate u \<or> is_low_surrogate u then [0xEF, 0xBF, 0xBD]
      else utf8_code_point (unat u))"
| "utf8_encode (u # v # rest) =
     (if is_high_surrogate u \<and> is_low_surrogate v then
        utf8_code_point (0x10000 + (unat u - 0xD800) * 0x400 + (unat v - 0xDC00)) @ utf8_encode rest
      else if is_high_surrogate u \<or> is_low_surrogate u then
        [0xEF, 0xBF, 0xBD] @ utf8_encode (v # rest)
      else utf8_code_point (unat u) @ utf8_encode (v # rest))"

text \<open>A string literal of the source, as code units.\<close>

definition js :: "string \<Rightarrow> js_string" where
  "js s = map (\<lambda>c. of_nat (of_char c)) s"

text \<open>The bytes of an ASCII literal, as \<^verbatim>\<open>Buffer.from('...')\<close> gives them.\<close>

definition ascii :: "string \<Rightarrow> bytes" where
  "ascii s = map (\<lambda>c. of_nat (of_char c)) s"

subsection \<open>\<^verbatim>\<open>deriveKey\<close>, \<^verbatim>\<open>encrypt\<close>, \<^verbatim>\<open>decrypt\<close>\<close>

definition ALGORITHM :: string where
  "ALGORITHM = ''aes-256-cbc''"

definition IV_LENGTH :: nat where
  "IV_LENGTH = 16"

text \<open>\<^verbatim>\<open>typeof dek === 'string' ? Buffer.from(dek, 'utf-8') : Buffer.from(dek)\<close>, then SHA-256.\<close>

definition deriveKey :: "key_material \<Rightarrow> bytes" where
  "deriveKey dek =
     (let dekBuffer = (case dek of Text s \<Rightarrow> utf8_encode s | Bytes b \<Rightarrow> b)
      in sha256 dekBuffer)"

text \<open>The guard \<^verbatim>\<open>!dek || (typeof dek === 'string' && dek.length === 0) ||
  (dek instanceof Uint8Array && dek.length === 0)\<close>. Of the values of the type, only the empty
  string is falsy.\<close>

definition falsy :: "key_material \<Rightarrow> bool" where
  "falsy dek = (case dek of Text s \<Rightarrow> s = [] | Bytes b \<Rightarrow> False)"

definition dek_is_empty :: "key_material \<Rightarrow> bool" where
  "dek_is_empty dek =
     (falsy dek
      \<or> (case dek of Text s \<Rightarrow> length s = 0 | Bytes b \<Rightarrow> False)
      \<or> (case dek of Text s \<Rightarrow> False | Bytes b \<Rightarrow> length b = 0))"

text \<open>A thrown \<^verbatim>\<open>Error\<close> is its message, on the left of the result. \<^verbatim>\<open>encrypt\<close> reads the
  random source, so it takes it and returns what is left of it. The two checks come before
  the \<^verbatim>\<open>try\<close> block; whatever is thrown inside it is caught and thrown again with the
  prefix \<^verbatim>\<open>Encryption failed: \<close>.\<close>

definition encrypt :: "random_source \<Rightarrow> bytes \<Rightarrow> key_material \<Rightarrow> (string + bytes) \<times> random_source" where
  "encrypt g data dek =
     (if length data = 0 then (Inl ''Data to encrypt cannot be empty'', g)
      else if dek_is_empty dek then (Inl ''DEK (Data Encryption Key) cannot be empty'', g)
      else
        (let key = deriveKey dek;
             r = randomBytes IV_LENGTH g;
             iv = fst r
         in case createCipheriv ALGORITHM key iv of
              Inl msg \<Rightarrow> (Inl (''Encryption failed: '' @ msg), snd r)
            | Inr cipher \<Rightarrow>
                (let u = cipher_update cipher data
                 in case cipher_final (snd u) of
                      Inl msg \<Rightarrow> (Inl (''Encryption failed: '' @ msg), snd r)
                    | Inr fin \<Rightarrow> (Inr (iv @ fst u @ fin), snd r))))"

text \<open>In \<^verbatim>\<open>decrypt\<close> the message of whatever is thrown inside the \<^verbatim>\<open>try\<close> block is dropped.\<close>

definition decrypt :: "bytes \<Rightarrow> key_material \<Rightarrow> string + bytes" where
  "decrypt encryptedData dek =
     (if length encryptedData \<le> IV_LENGTH then
        Inl ''Encrypted data is too short or empty (must be > 16 bytes)''
      else if dek_is_empty dek then Inl ''DEK (Data Encryption Key) cannot be empty''
      else
        (let iv = take IV_LENGTH encryptedData;
             ciphertext = drop IV_LENGTH encryptedData;
             key = deriveKey dek
         in case createDecipheriv ALGORITHM key iv of
              Inl msg \<Rightarrow> Inl ''Decryption failed: Wrong key or tampered data''
            | Inr decipher \<Rightarrow>
                (let u = decipher_update decipher ciphertext
                 in case decipher_final (snd u) of
                      Inl msg \<Rightarrow> Inl ''Decryption failed: Wrong key or tampered data''
                    | Inr fin \<Rightarrow> Inr (fst u @ fin))))"

section \<open>The reference composition of the specification\<close>

text \<open>
  These definitions follow the words of the specification, not the source: the envelope is
  \<open>IV || ciphertext\<close>; the key is the hash of the bytes of the key material; PKCS7 padding
  ``appends \<open>b\<close> bytes each equal to \<open>b\<close>, where \<open>b\<close> is the number of bytes needed to reach
  the next block boundary, \<open>1 \<le> b \<le> blockSize\<close>, removed and validated during decryption'';
  in CBC ``each plaintext block is combined with the previous ciphertext block (or the IV,
  for the first block) before encryption''. They are compared with the cipher below.
\<close>

function split_blocks :: "bytes \<Rightarrow> bytes list" where
  "split_blocks data = (if data = [] then [] else take 16 data # split_blocks (drop 16 data))"
  by pat_completeness auto
termination
  by (relation "measure length") auto

declare split_blocks.simps [simp del]

fun ref_cbc_encrypt :: "bytes \<Rightarrow> bytes \<Rightarrow> bytes list \<Rightarrow> bytes list" where
  "ref_cbc_encrypt key prev [] = []"
| "ref_cbc_encrypt key prev (p # ps) =
     (let c = aes256_encrypt_block key (xor_bytes p prev) in c # ref_cbc_encrypt key c ps)"

fun ref_cbc_decrypt :: "bytes \<Rightarrow> bytes \<Rightarrow> bytes list \<Rightarrow> bytes list" where
  "ref_cbc_decrypt key prev [] = []"
| "ref_cbc_decrypt key prev (c # cs) =
     xor_bytes (aes256_decrypt_block key c) prev # ref_cbc_decrypt key c cs"

definition ref_pkcs7_pad :: "bytes \<Rightarrow> bytes" where
  "ref_pkcs7_pad p = (let b = 16 - length p mod 16 in p @ replicate b (of_nat b))"

definition ref_pkcs7_unpad :: "bytes \<Rightarrow> bytes option" where
  "ref_pkcs7_unpad p =
     (if p = [] then None
      else
        (let b = unat (last p)
         in if 1 \<le> b \<and> b \<le> 16 \<and> b \<le> length p \<and> drop (length p - b) p = replicate b (last p)
            then Some (take (length p - b) p)
            else None))"

definition ref_aes256_cbc_encrypt :: "bytes \<Rightarrow> bytes \<Rightarrow> bytes \<Rightarrow> bytes" where
  "ref_aes256_cbc_encrypt key iv p = concat (ref_cbc_encrypt key iv (split_blocks (ref_pkcs7_pad p)))"

definition ref_aes256_cbc_decrypt :: "bytes \<Rightarrow> bytes \<Rightarrow> bytes \<Rightarrow> bytes option" where
  "ref_aes256_cbc_decrypt key iv c =
     (if 0 < length c \<and> length c mod 16 = 0
      then ref_pkcs7_unpad (concat (ref_cbc_decrypt key iv (split_blocks c)))
      else None)"

definition key_bytes :: "key_material \<Rightarrow> bytes" where
  "key_bytes k = (case k of Text s \<Rightarrow> utf8_encode s | Bytes b \<Rightarrow> b)"

definition ref_encrypt :: "bytes \<Rightarrow> bytes \<Rightarrow> key_material \<Rightarrow> bytes" where
  "ref_encrypt iv p k = iv @ ref_aes256_cbc_encrypt (sha256 (key_bytes k)) iv p"

definition ref_decrypt :: "bytes \<Rightarrow> key_material \<Rightarrow> bytes option" where
  "ref_decrypt envelope k =
     ref_aes256_cbc_decrypt (sha256 (key_bytes k)) (take 16 envelope) (drop 16 envelope)"

lemma xtime_xor: "xtime (a XOR b) = xtime a XOR xtime b"
  by (simp add: xtime_def bit_xor_iff xor.assoc xor.commute xor.left_commute)

lemma xor_cancel_left: "(a::byte) XOR (a XOR b) = b"
  by (simp add: xor.assoc[symmetric])

lemma inv_mix_column_mix_column:
  "mix_column a b c d = [p, q, r, s] \<Longrightarrow> inv_mix_column p q r s = [a, b, c, d]"
  by (auto simp add: mix_column_def inv_mix_column_def mul2_def mul3_def mul9_def mul11_def mul13_def
      mul14_def xtime_xor xor.assoc xor.commute xor.left_commute xor_cancel_left)

lemma sbox_tables_inverse:
  "map (\<lambda>y. inv_sbox_table ! unat y) sbox_table = map word_of_nat [0..<256]"
  by (simp add: sbox_table_def inv_sbox_table_def upt_conv_Cons)

lemma length_sbox_table: "length sbox_table = 256"
  by (simp add: sbox_table_def)

lemma inv_sbox_sbox: "inv_sbox (sbox x) = x"
proof -
  have lt: "unat x < 256"
    using unsigned_less [of x] by simp
  have "inv_sbox (sbox x) = map (\<lambda>y. inv_sbox_table ! unat y) sbox_table ! unat x"
    using lt by (simp add: inv_sbox_def sbox_def length_sbox_table)
  also have "\<dots> = map word_of_nat [0..<256] ! unat x"
    by (simp only: sbox_tables_inverse)
  also have "\<dots> = x"
    using lt by (simp del: upt_rec_numeral)
  finally show ?thesis .
qed

lemma inv_sub_bytes_sub_bytes: "inv_sub_bytes (sub_bytes s) = s"
  by (simp add: inv_sub_bytes_def sub_bytes_def inv_sbox_sbox comp_def)

lemma inv_shift_rows_shift_rows: "inv_shift_rows (shift_rows s) = s"
  by (induction s rule: shift_rows.induct) simp_all

lemma inv_mix_columns_mix_columns: "inv_mix_columns (mix_columns s) = s"
proof (induction s rule: mix_columns.induct)
  case (1 a b c d rest)
  obtain p q r s where m: "mix_column a b c d = [p, q, r, s]"
    by (simp add: mix_column_def)
  show ?case
    using 1 by (simp add: m inv_mix_column_mix_column [OF m])
qed simp_all

lemma length_sub_bytes: "length (sub_bytes s) = length s"
  by (simp add: sub_bytes_def)

lemma length_shift_rows: "length (shift_rows s) = length s"
  by (induction s rule: shift_rows.induct) simp_all

lemma length_mix_columns: "length (mix_columns s) = length s"
  by (induction s rule: mix_columns.induct) (simp_all add: mix_column_def)

lemma length_add_round_key: "length k = length s \<Longrightarrow> length (add_round_key k s) = length s"
  by (simp add: add_round_key_def)

lemma add_round_key_twice:
  "length k = length s \<Longrightarrow> add_round_key k (add_round_key k s) = s"
proof (induction s arbitrary: k)
  case Nil
  then show ?case by (simp add: add_round_key_def)
next
  case (Cons x xs)
  then obtain y ys where k: "k = y # ys" "length ys = length xs"
    by (cases k) auto
  have "add_round_key ys (add_round_key ys xs) = xs"
    using Cons.IH k(2) by simp
  then show ?case
    by (simp add: k add_round_key_def xor.assoc)
qed

lemma length_word_bytes: "length (word_bytes w) = 4"
  by (cases w) simp

lemma length_round_keys: "k \<in> set (round_keys ws) \<Longrightarrow> length k = 16"
  by (induction ws rule: round_keys.induct) (auto simp add: length_word_bytes)

lemma cipher_rounds_state:
  "\<forall>k \<in> set ks. length k = 16 \<Longrightarrow> length s = 16 \<Longrightarrow>
   length (cipher_rounds ks s) = 16 \<and> inv_cipher_rounds ks (cipher_rounds ks s) = s"
proof (induction ks s rule: cipher_rounds.induct)
  case (1 s)
  then show ?case by simp
next
  case (2 k s)
  then show ?case
    by (simp add: length_add_round_key length_shift_rows length_sub_bytes add_round_key_twice
        inv_shift_rows_shift_rows inv_sub_bytes_sub_bytes)
next
  case (3 k k' ks s)
  let ?t = "add_round_key k (mix_columns (shift_rows (sub_bytes s)))"
  have len: "length ?t = 16"
    using 3(2,3) by (simp add: length_add_round_key length_mix_columns length_shift_rows length_sub_bytes)
  have ih: "length (cipher_rounds (k' # ks) ?t) = 16 \<and>
      inv_cipher_rounds (k' # ks) (cipher_rounds (k' # ks) ?t) = ?t"
    using 3(1) 3(2) len by simp
  have inv: "inv_sub_bytes (inv_shift_rows (inv_mix_columns (add_round_key k ?t))) = s"
    using 3(2,3)
    by (simp add: add_round_key_twice length_mix_columns length_shift_rows length_sub_bytes
        inv_mix_columns_mix_columns inv_shift_rows_shift_rows inv_sub_bytes_sub_bytes)
  show ?case
    using ih inv by simp
qed

lemma aes256_block_roundtrip:
  assumes "length blk = 16"
  shows "aes256_decrypt_block key (aes256_encrypt_block key blk) = blk"
proof (cases "key_expansion key")
  case Nil
  then show ?thesis
    by (simp add: aes256_decrypt_block_def aes256_encrypt_block_def)
next
  case (Cons k0 ks)
  have all: "\<forall>k \<in> set (k0 # ks). length k = 16"
    using Cons length_round_keys by (metis key_expansion_def)
  then have k0: "length k0 = 16" and ks: "\<forall>k \<in> set ks. length k = 16"
    by simp_all
  have s0: "length (add_round_key k0 blk) = 16"
    using assms k0 by (simp add: length_add_round_key)
  have "inv_cipher_rounds ks (cipher_rounds ks (add_round_key k0 blk)) = add_round_key k0 blk"
    using cipher_rounds_state [OF ks s0] by simp
  then show ?thesis
    using assms k0 by (simp add: aes256_decrypt_block_def aes256_encrypt_block_def Cons add_round_key_twice)
qed

lemma length_aes256_encrypt_block:
  assumes "length blk = 16"
  shows "length (aes256_encrypt_block key blk) = 16"
proof (cases "key_expansion key")
  case Nil
  then show ?thesis
    using assms by (simp add: aes256_encrypt_block_def)
next
  case (Cons k0 ks)
  have all: "\<forall>k \<in> set (k0 # ks). length k = 16"
    using Cons length_round_keys by (metis key_expansion_def)
  then have k0: "length k0 = 16" and ks: "\<forall>k \<in> set ks. length k = 16"
    by simp_all
  have s0: "length (add_round_key k0 blk) = 16"
    using assms k0 by (simp add: length_add_round_key)
  show ?thesis
    using cipher_rounds_state [OF ks s0] by (simp add: aes256_encrypt_block_def Cons)
qed

lemma length_xor_bytes: "length (xor_bytes a b) = min (length a) (length b)"
  by (simp add: xor_bytes_def)

lemma xor_bytes_twice: "length a = length b \<Longrightarrow> xor_bytes (xor_bytes a b) b = a"
  using add_round_key_twice [of b a] by (simp add: xor_bytes_def add_round_key_def)

lemma cbc_encrypt_blocks_short:
  "length data < 16 \<Longrightarrow> cbc_encrypt_blocks key chain data = ([], chain)"
  by (simp add: cbc_encrypt_blocks.simps)

lemma cbc_encrypt_blocks_step:
  "16 \<le> length data \<Longrightarrow>
   cbc_encrypt_blocks key chain data =
     (aes256_encrypt_block key (xor_bytes (take 16 data) chain)
        @ fst (cbc_encrypt_blocks key (aes256_encrypt_block key (xor_bytes (take 16 data) chain)) (drop 16 data)),
      snd (cbc_encrypt_blocks key (aes256_encrypt_block key (xor_bytes (take 16 data) chain)) (drop 16 data)))"
  by (subst cbc_encrypt_blocks.simps) (simp add: Let_def)

lemma cbc_decrypt_blocks_short:
  "length data < 16 \<Longrightarrow> cbc_decrypt_blocks key chain data = ([], chain)"
  by (simp add: cbc_decrypt_blocks.simps)

lemma cbc_decrypt_blocks_step:
  "16 \<le> length data \<Longrightarrow>
   cbc_decrypt_blocks key chain data =
     (xor_bytes (aes256_decrypt_block key (take 16 data)) chain
        @ fst (cbc_decrypt_blocks key (take 16 data) (drop 16 data)),
      snd (cbc_decrypt_blocks key (take 16 data) (drop 16 data)))"
  by (subst cbc_decrypt_blocks.simps) (simp add: Let_def)

lemma cbc_encrypt_blocks_length:
  "length chain = 16 \<Longrightarrow>
   length (fst (cbc_encrypt_blocks key chain data)) = 16 * (length data div 16) \<and>
   length (snd (cbc_encrypt_blocks key chain data)) = 16"
proof (induction key chain data rule: cbc_encrypt_blocks.induct)
  case (1 key chain data)
  show ?case
  proof (cases "length data < 16")
    case True
    then show ?thesis
      using 1(2) by (simp add: cbc_encrypt_blocks_short)
  next
    case False
    let ?c = "aes256_encrypt_block key (xor_bytes (take 16 data) chain)"
    have c: "length ?c = 16"
      using False 1(2) by (simp add: length_aes256_encrypt_block length_xor_bytes)
    have ih: "length (fst (cbc_encrypt_blocks key ?c (drop 16 data))) = 16 * (length (drop 16 data) div 16) \<and>
        length (snd (cbc_encrypt_blocks key ?c (drop 16 data))) = 16"
      using 1(1) [OF False refl c] .
    have "16 * ((length data - 16) div 16) + 16 = 16 * (length data div 16)"
      using False by (simp add: le_div_geq)
    then show ?thesis
      using False ih c by (simp add: cbc_encrypt_blocks_step)
  qed
qed

lemma cbc_roundtrip:
  "length chain = 16 \<Longrightarrow> 16 dvd length data \<Longrightarrow>
   fst (cbc_decrypt_blocks key chain (fst (cbc_encrypt_blocks key chain data))) = data"
proof (induction key chain data rule: cbc_encrypt_blocks.induct)
  case (1 key chain data)
  show ?case
  proof (cases "length data < 16")
    case True
    then have "data = []"
      using 1(3) by (auto simp add: dvd_def)
    then show ?thesis
      by (simp add: cbc_encrypt_blocks_short cbc_decrypt_blocks_short)
  next
    case False
    let ?c = "aes256_encrypt_block key (xor_bytes (take 16 data) chain)"
    let ?r = "fst (cbc_encrypt_blocks key ?c (drop 16 data))"
    have x: "length (xor_bytes (take 16 data) chain) = 16"
      using False 1(2) by (simp add: length_xor_bytes)
    have c: "length ?c = 16"
      using x by (simp add: length_aes256_encrypt_block)
    have d: "16 dvd length (drop 16 data)"
      using 1(3) False by simp
    have ih: "fst (cbc_decrypt_blocks key ?c ?r) = drop 16 data"
      using 1(1) [OF False refl c d] .
    have enc: "fst (cbc_encrypt_blocks key chain data) = ?c @ ?r"
      using False by (simp add: cbc_encrypt_blocks_step)
    have first: "xor_bytes (aes256_decrypt_block key ?c) chain = take 16 data"
      using False 1(2) by (simp add: aes256_block_roundtrip [OF x] xor_bytes_twice)
    have "fst (cbc_decrypt_blocks key chain (?c @ ?r)) = take 16 data @ drop 16 data"
      using c first ih by (simp add: cbc_decrypt_blocks_step)
    then show ?thesis
      by (simp add: enc)
  qed
qed

lemma length_inv_sub_bytes: "length (inv_sub_bytes s) = length s"
  by (simp add: inv_sub_bytes_def)

lemma length_inv_shift_rows: "length (inv_shift_rows s) = length s"
  by (induction s rule: inv_shift_rows.induct) simp_all

lemma length_inv_mix_columns: "length (inv_mix_columns s) = length s"
  by (induction s rule: inv_mix_columns.induct) (simp_all add: inv_mix_column_def)

lemma length_inv_cipher_rounds:
  "\<forall>k \<in> set ks. length k = 16 \<Longrightarrow> length s = 16 \<Longrightarrow> length (inv_cipher_rounds ks s) = 16"
  by (induction ks s rule: inv_cipher_rounds.induct)
    (simp_all add: length_add_round_key length_inv_mix_columns length_inv_shift_rows
      length_inv_sub_bytes)

lemma length_aes256_decrypt_block:
  assumes "length blk = 16"
  shows "length (aes256_decrypt_block key blk) = 16"
proof (cases "key_expansion key")
  case Nil
  then show ?thesis
    using assms by (simp add: aes256_decrypt_block_def)
next
  case (Cons k0 ks)
  have all: "\<forall>k \<in> set (k0 # ks). length k = 16"
    using Cons length_round_keys by (metis key_expansion_def)
  then have k0: "length k0 = 16" and ks: "\<forall>k \<in> set ks. length k = 16"
    by simp_all
  show ?thesis
    using length_inv_cipher_rounds [OF ks assms] k0
    by (simp add: aes256_decrypt_block_def Cons length_add_round_key)
qed

lemma cbc_decrypt_blocks_length:
  "length chain = 16 \<Longrightarrow>
   length (fst (cbc_decrypt_blocks key chain data)) = 16 * (length data div 16) \<and>
   length (snd (cbc_decrypt_blocks key chain data)) = 16"
proof (induction key chain data rule: cbc_decrypt_blocks.induct)
  case (1 key chain data)
  show ?case
  proof (cases "length data < 16")
    case True
    then show ?thesis
      using 1(2) by (simp add: cbc_decrypt_blocks_short)
  next
    case False
    have c: "length (take 16 data) = 16"
      using False by simp
    have ih: "length (fst (cbc_decrypt_blocks key (take 16 data) (drop 16 data))) =
          16 * (length (drop 16 data) div 16) \<and>
        length (snd (cbc_decrypt_blocks key (take 16 data) (drop 16 data))) = 16"
      using 1(1) [OF False refl refl c] .
    have p: "length (xor_bytes (aes256_decrypt_block key (take 16 data)) chain) = 16"
      using 1(2) c by (simp add: length_xor_bytes length_aes256_decrypt_block)
    have "16 * ((length data - 16) div 16) + 16 = 16 * (length data div 16)"
      using False by (simp add: le_div_geq)
    then show ?thesis
      using False ih p by (simp add: cbc_decrypt_blocks_step)
  qed
qed

lemma cbc_encrypt_blocks_append:
  "16 dvd length xs \<Longrightarrow>
   cbc_encrypt_blocks key chain (xs @ ys) =
     (fst (cbc_encrypt_blocks key chain xs)
        @ fst (cbc_encrypt_blocks key (snd (cbc_encrypt_blocks key chain xs)) ys),
      snd (cbc_encrypt_blocks key (snd (cbc_encrypt_blocks key chain xs)) ys))"
proof (induction key chain xs rule: cbc_encrypt_blocks.induct)
  case (1 key chain xs)
  show ?case
  proof (cases "length xs < 16")
    case True
    then have "xs = []"
      using 1(2) by (auto simp add: dvd_def)
    then show ?thesis
      by (simp add: cbc_encrypt_blocks_short)
  next
    case False
    let ?c = "aes256_encrypt_block key (xor_bytes (take 16 xs) chain)"
    have d: "16 dvd length (drop 16 xs)"
      using 1(2) False by simp
    note ih = 1(1) [OF False refl d]
    have l: "16 \<le> length (xs @ ys)"
      using False by simp
    have t: "take 16 (xs @ ys) = take 16 xs" "drop 16 (xs @ ys) = drop 16 xs @ ys"
      using False by simp_all
    show ?thesis
      using False
      by (simp add: cbc_encrypt_blocks_step [OF l] t ih cbc_encrypt_blocks_step [of xs])
  qed
qed

lemma cbc_decrypt_blocks_append:
  "16 dvd length xs \<Longrightarrow>
   cbc_decrypt_blocks key chain (xs @ ys) =
     (fst (cbc_decrypt_blocks key chain xs)
        @ fst (cbc_decrypt_blocks key (snd (cbc_decrypt_blocks key chain xs)) ys),
      snd (cbc_decrypt_blocks key (snd (cbc_decrypt_blocks key chain xs)) ys))"
proof (induction key chain xs rule: cbc_decrypt_blocks.induct)
  case (1 key chain xs)
  show ?case
  proof (cases "length xs < 16")
    case True
    then have "xs = []"
      using 1(2) by (auto simp add: dvd_def)
    then show ?thesis
      by (simp add: cbc_decrypt_blocks_short)
  next
    case False
    have d: "16 dvd length (drop 16 xs)"
      using 1(2) False by simp
    note ih = 1(1) [OF False refl refl d]
    have l: "16 \<le> length (xs @ ys)"
      using False by simp
    have t: "take 16 (xs @ ys) = take 16 xs" "drop 16 (xs @ ys) = drop 16 xs @ ys"
      using False by simp_all
    show ?thesis
      using False
      by (simp add: cbc_decrypt_blocks_step [OF l] t ih cbc_decrypt_blocks_step [of xs])
  qed
qed

lemma split_blocks_Nil: "split_blocks [] = []"
  by (simp add: split_blocks.simps)

lemma split_blocks_step:
  "data \<noteq> [] \<Longrightarrow> split_blocks data = take 16 data # split_blocks (drop 16 data)"
  by (subst split_blocks.simps) simp

lemma cbc_encrypt_blocks_ref:
  "16 dvd length data \<Longrightarrow>
   fst (cbc_encrypt_blocks key chain data) = concat (ref_cbc_encrypt key chain (split_blocks data))"
proof (induction key chain data rule: cbc_encrypt_blocks.induct)
  case (1 key chain data)
  show ?case
  proof (cases "length data < 16")
    case True
    then have "data = []"
      using 1(2) by (auto simp add: dvd_def)
    then show ?thesis
      by (simp add: cbc_encrypt_blocks_short split_blocks_Nil)
  next
    case False
    then have ne: "data \<noteq> []"
      by auto
    have d: "16 dvd length (drop 16 data)"
      using 1(2) False by simp
    note ih = 1(1) [OF False refl d]
    show ?thesis
      using False ih by (simp add: cbc_encrypt_blocks_step split_blocks_step [OF ne] Let_def)
  qed
qed

lemma cbc_decrypt_blocks_ref:
  "16 dvd length data \<Longrightarrow>
   fst (cbc_decrypt_blocks key chain data) = concat (ref_cbc_decrypt key chain (split_blocks data))"
proof (induction key chain data rule: cbc_decrypt_blocks.induct)
  case (1 key chain data)
  show ?case
  proof (cases "length data < 16")
    case True
    then have "data = []"
      using 1(2) by (auto simp add: dvd_def)
    then show ?thesis
      by (simp add: cbc_decrypt_blocks_short split_blocks_Nil)
  next
    case False
    then have ne: "data \<noteq> []"
      by auto
    have d: "16 dvd length (drop 16 data)"
      using 1(2) False by simp
    note ih = 1(1) [OF False refl refl d]
    show ?thesis
      using False ih by (simp add: cbc_decrypt_blocks_step split_blocks_step [OF ne])
  qed
qed

lemma length_word32_bytes: "length (word32_bytes w) = 4"
  by (simp add: word32_bytes_def)

lemma length_state_bytes: "length (state_bytes s) = 32"
  by (induction s rule: state_bytes.induct) (simp add: length_word32_bytes)

lemma length_sha256: "length (sha256 m) = 32"
  by (simp add: sha256_def length_state_bytes)

lemma length_deriveKey: "length (deriveKey dek) = 32"
  by (simp add: deriveKey_def length_sha256)

lemma deriveKey_key_bytes: "deriveKey dek = sha256 (key_bytes dek)"
  by (simp add: deriveKey_def key_bytes_def)

lemma length_randomBytes: "length (fst (randomBytes n g)) = n"
  by (simp add: randomBytes_def)

lemma length_ref_pkcs7_pad: "length (ref_pkcs7_pad p) = 16 * (length p div 16 + 1)"
proof -
  define x y where "x = length p div 16" and "y = length p mod 16"
  have "length p = 16 * x + y" "y < 16"
    by (simp_all add: x_def y_def)
  then have "length p + (16 - y) = 16 * (x + 1)"
    by arith
  then show ?thesis
    unfolding x_def y_def
    by (simp add: ref_pkcs7_pad_def Let_def)
qed

lemma cipher_update_final:
  fixes key iv data
  defines "c0 \<equiv> \<lparr>ctx_key = key, ctx_chain = iv, ctx_buf = []\<rparr>"
  shows "\<exists>fin. cipher_final (snd (cipher_update c0 data)) = Inr fin \<and>
    fst (cipher_update c0 data) @ fin = fst (cbc_encrypt_blocks key iv (ref_pkcs7_pad data))"
proof -
  let ?n = "16 * (length data div 16)"
  let ?b = "16 - length data mod 16"
  let ?pad = "replicate ?b (of_nat ?b :: byte)"
  let ?r = "cbc_encrypt_blocks key iv (take ?n data)"
  have n: "?n \<le> length data"
    by simp
  have len_take: "length (take ?n data) = ?n"
    using n by simp
  have len_drop: "length (drop ?n data) = length data mod 16"
    by (simp add: minus_mult_div_eq_mod)
  have upd: "cipher_update c0 data = (fst ?r, \<lparr>ctx_key = key, ctx_chain = snd ?r, ctx_buf = drop ?n data\<rparr>)"
    by (simp add: cipher_update_def c0_def Let_def)
  have "length (drop ?n data) mod 16 = length data mod 16"
    by (simp only: len_drop mod_mod_trivial)
  then have fin: "cipher_final (snd (cipher_update c0 data)) =
      Inr (fst (cbc_encrypt_blocks key (snd ?r) (drop ?n data @ ?pad)))"
    unfolding upd cipher_final_def Let_def by (simp only: snd_conv cipher_ctx.simps)
  have split: "ref_pkcs7_pad data = take ?n data @ (drop ?n data @ ?pad)"
    by (simp add: ref_pkcs7_pad_def Let_def)
  have d: "16 dvd length (take ?n data)"
    by (simp only: len_take) simp
  have "fst (cbc_encrypt_blocks key iv (ref_pkcs7_pad data)) =
      fst ?r @ fst (cbc_encrypt_blocks key (snd ?r) (drop ?n data @ ?pad))"
    by (simp only: split cbc_encrypt_blocks_append [OF d] fst_conv)
  then show ?thesis
    using fin upd by simp
qed

lemma ref_pkcs7_unpad_last_block:
  assumes "length p = 16"
  shows "ref_pkcs7_unpad (q @ p) =
    (if unat (last p) = 0 \<or> 16 < unat (last p) then None
     else if drop (16 - unat (last p)) p \<noteq> replicate (unat (last p)) (last p) then None
     else Some (q @ take (16 - unat (last p)) p))"
proof -
  have ne: "p \<noteq> []"
    using assms by auto
  then have l: "last (q @ p) = last p"
    by simp
  show ?thesis
  proof (cases "unat (last p) = 0 \<or> 16 < unat (last p)")
    case True
    then show ?thesis
      using ne by (auto simp add: ref_pkcs7_unpad_def Let_def l)
  next
    case False
    then have b: "1 \<le> unat (last p)" "unat (last p) \<le> 16"
      by auto
    have dr: "drop (length (q @ p) - unat (last p)) (q @ p) = drop (16 - unat (last p)) p"
      using b assms by simp
    have tk: "take (length (q @ p) - unat (last p)) (q @ p) = q @ take (16 - unat (last p)) p"
      using b assms by simp
    have le: "unat (last p) \<le> length (q @ p)"
      using b assms by simp
    show ?thesis
      using False ne b le unfolding ref_pkcs7_unpad_def Let_def l dr tk by auto
  qed
qed

lemma decipher_update_final:
  fixes key iv ct
  defines "c0 \<equiv> \<lparr>ctx_key = key, ctx_chain = iv, ctx_buf = []\<rparr>"
  assumes iv: "length iv = 16" and ct: "0 < length ct"
  shows "(case decipher_final (snd (decipher_update c0 ct)) of
            Inl msg \<Rightarrow> None
          | Inr fin \<Rightarrow> Some (fst (decipher_update c0 ct) @ fin)) = ref_aes256_cbc_decrypt key iv ct"
proof (cases "length ct mod 16 = 0")
  case False
  let ?n = "16 * (length ct div 16)"
  have len_drop: "length (drop ?n ct) = length ct mod 16"
    by (simp add: minus_mult_div_eq_mod)
  have "length ct mod 16 < 16"
    by simp
  then have "length (drop ?n ct) \<noteq> 16"
    using len_drop by simp
  then have "decipher_final (snd (decipher_update c0 ct)) = Inl ''wrong final block length''"
    using False by (simp add: decipher_update_def decipher_final_def c0_def Let_def)
  then show ?thesis
    using False by (simp add: ref_aes256_cbc_decrypt_def)
next
  case True
  let ?n = "length ct - 16"
  let ?r = "cbc_decrypt_blocks key iv (take ?n ct)"
  let ?p = "fst (cbc_decrypt_blocks key (snd ?r) (drop ?n ct))"
  have ge: "16 \<le> length ct"
    using True ct by (metis mod_less not_less less_numeral_extra(3))
  have dvd: "16 dvd length ct"
    using True by (simp add: dvd_eq_mod_eq_0)
  have d: "16 dvd length (take ?n ct)"
    using ge dvd by (simp add: min_def)
  have len_drop: "length (drop ?n ct) = 16"
    using ge by simp
  have chain: "length (snd ?r) = 16"
    using cbc_decrypt_blocks_length [OF iv] by simp
  have p: "length ?p = 16"
    using cbc_decrypt_blocks_length [OF chain, of key "drop ?n ct"] len_drop by simp
  have upd: "decipher_update c0 ct = (fst ?r, \<lparr>ctx_key = key, ctx_chain = snd ?r, ctx_buf = drop ?n ct\<rparr>)"
    using True by (simp add: decipher_update_def c0_def Let_def)
  have whole: "fst (cbc_decrypt_blocks key iv ct) = fst ?r @ ?p"
    using cbc_decrypt_blocks_append [OF d, of key iv "drop ?n ct"] by simp
  have ref: "ref_aes256_cbc_decrypt key iv ct = ref_pkcs7_unpad (fst ?r @ ?p)"
    using True ct by (simp add: ref_aes256_cbc_decrypt_def cbc_decrypt_blocks_ref [OF dvd, symmetric] whole)
  have pne: "?p \<noteq> []"
    using p by auto
  show ?thesis
    unfolding ref ref_pkcs7_unpad_last_block [OF p] upd
    using pne len_drop by (simp add: decipher_final_def Let_def)
qed

lemma dek_is_empty_iff: "dek_is_empty dek \<longleftrightarrow> dek = Text [] \<or> dek = Bytes []"
  by (cases dek) (simp_all add: dek_is_empty_def falsy_def)

lemma new_ctx_ok:
  "length key = 32 \<Longrightarrow> length iv = 16 \<Longrightarrow>
   new_ctx ALGORITHM key iv = Inr \<lparr>ctx_key = key, ctx_chain = iv, ctx_buf = []\<rparr>"
  by (simp add: new_ctx_def ALGORITHM_def)

lemma encrypt_reference:
  assumes "data \<noteq> []" and "\<not> dek_is_empty dek"
  shows "encrypt g data dek =
    (Inr (ref_encrypt (fst (randomBytes 16 g)) data dek), snd (randomBytes 16 g))"
proof -
  let ?iv = "fst (randomBytes 16 g)"
  let ?key = "deriveKey dek"
  let ?c0 = "\<lparr>ctx_key = ?key, ctx_chain = ?iv, ctx_buf = []\<rparr>"
  have c: "createCipheriv ALGORITHM ?key ?iv = Inr ?c0"
    by (simp add: createCipheriv_def new_ctx_ok length_deriveKey length_randomBytes)
  obtain fin where fin: "cipher_final (snd (cipher_update ?c0 data)) = Inr fin"
    and out: "fst (cipher_update ?c0 data) @ fin = fst (cbc_encrypt_blocks ?key ?iv (ref_pkcs7_pad data))"
    using cipher_update_final [of ?key ?iv data] by blast
  have "16 dvd length (ref_pkcs7_pad data)"
    by (simp add: length_ref_pkcs7_pad)
  then have "fst (cbc_encrypt_blocks ?key ?iv (ref_pkcs7_pad data)) = ref_aes256_cbc_encrypt ?key ?iv data"
    by (simp add: cbc_encrypt_blocks_ref ref_aes256_cbc_encrypt_def)
  then have "?iv @ fst (cipher_update ?c0 data) @ fin = ref_encrypt ?iv data dek"
    using out by (simp add: ref_encrypt_def deriveKey_key_bytes)
  then show ?thesis
    using assms c fin by (simp add: encrypt_def IV_LENGTH_def Let_def)
qed

lemma decrypt_reference:
  assumes "16 < length e" and "\<not> dek_is_empty dek"
  shows "decrypt e dek =
    (case ref_decrypt e dek of
       None \<Rightarrow> Inl ''Decryption failed: Wrong key or tampered data''
     | Some p \<Rightarrow> Inr p)"
proof -
  let ?iv = "take 16 e"
  let ?ct = "drop 16 e"
  let ?key = "deriveKey dek"
  let ?c0 = "\<lparr>ctx_key = ?key, ctx_chain = ?iv, ctx_buf = []\<rparr>"
  have iv: "length ?iv = 16" and ct: "0 < length ?ct"
    using assms(1) by simp_all
  have c: "createDecipheriv ALGORITHM ?key ?iv = Inr ?c0"
    using iv by (simp add: createDecipheriv_def new_ctx_ok length_deriveKey)
  have r: "ref_decrypt e dek =
      (case decipher_final (snd (decipher_update ?c0 ?ct)) of
         Inl msg \<Rightarrow> None
       | Inr fin \<Rightarrow> Some (fst (decipher_update ?c0 ?ct) @ fin))"
    using decipher_update_final [OF iv ct, of ?key]
    by (simp add: ref_decrypt_def deriveKey_key_bytes)
  show ?thesis
    using assms c unfolding r
    by (simp add: decrypt_def IV_LENGTH_def Let_def split: sum.splits)
qed

lemma ref_pkcs7_unpad_pad: "ref_pkcs7_unpad (ref_pkcs7_pad p) = Some p"
proof -
  define b where "b = 16 - length p mod 16"
  have b: "1 \<le> b" "b \<le> 16"
    by (simp_all add: b_def)
  have u: "unat (word_of_nat b :: byte) = b"
    using b by (simp add: unat_of_nat)
  have pos: "0 < b"
    using b by simp
  have l: "last (p @ replicate b (word_of_nat b :: byte)) = word_of_nat b"
    using pos by simp
  have ne: "p @ replicate b (word_of_nat b :: byte) \<noteq> []"
    using pos by simp
  show ?thesis
    unfolding ref_pkcs7_pad_def ref_pkcs7_unpad_def Let_def b_def [symmetric]
    using b ne by (simp only: l u) simp
qed

lemma ref_decrypt_ref_encrypt:
  assumes "length iv = 16"
  shows "ref_decrypt (ref_encrypt iv p k) k = Some p"
proof -
  let ?key = "sha256 (key_bytes k)"
  let ?c = "ref_aes256_cbc_encrypt ?key iv p"
  have d: "16 dvd length (ref_pkcs7_pad p)"
    by (simp add: length_ref_pkcs7_pad)
  have c: "?c = fst (cbc_encrypt_blocks ?key iv (ref_pkcs7_pad p))"
    using d by (simp add: cbc_encrypt_blocks_ref ref_aes256_cbc_encrypt_def)
  have len: "length ?c = 16 * (length p div 16 + 1)"
    using cbc_encrypt_blocks_length [OF assms, of ?key "ref_pkcs7_pad p"]
    by (simp add: c length_ref_pkcs7_pad)
  then have dc: "16 dvd length ?c" and pos: "0 < length ?c"
    by simp_all
  have "concat (ref_cbc_decrypt ?key iv (split_blocks ?c)) = ref_pkcs7_pad p"
    using cbc_roundtrip [OF assms d, of ?key] cbc_decrypt_blocks_ref [OF dc, of ?key iv]
    by (simp add: c)
  then have "ref_aes256_cbc_decrypt ?key iv ?c = Some p"
    using pos dc by (simp add: ref_aes256_cbc_decrypt_def ref_pkcs7_unpad_pad dvd_eq_mod_eq_0)
  then show ?thesis
    using assms by (simp add: ref_decrypt_def ref_encrypt_def)
qed

lemma length_ref_encrypt:
  assumes "length iv = 16"
  shows "length (ref_encrypt iv p k) = 16 + 16 * (length p div 16 + 1)"
proof -
  let ?key = "sha256 (key_bytes k)"
  have d: "16 dvd length (ref_pkcs7_pad p)"
    by (simp add: length_ref_pkcs7_pad)
  have "ref_aes256_cbc_encrypt ?key iv p = fst (cbc_encrypt_blocks ?key iv (ref_pkcs7_pad p))"
    using d by (simp add: cbc_encrypt_blocks_ref ref_aes256_cbc_encrypt_def)
  then have "length (ref_aes256_cbc_encrypt ?key iv p) = 16 * (length p div 16 + 1)"
    using cbc_encrypt_blocks_length [OF assms, of ?key "ref_pkcs7_pad p"]
    by (simp add: length_ref_pkcs7_pad)
  then show ?thesis
    using assms by (simp add: ref_encrypt_def)
qed

lemma encrypt_empty_data: "encrypt g [] dek = (Inl ''Data to encrypt cannot be empty'', g)"
  by (simp add: encrypt_def)

lemma encrypt_empty_dek:
  "data \<noteq> [] \<Longrightarrow> dek_is_empty dek \<Longrightarrow>
   encrypt g data dek = (Inl ''DEK (Data Encryption Key) cannot be empty'', g)"
  by (simp add: encrypt_def)

lemma utf8_code_point_not_Nil: "utf8_code_point c \<noteq> []"
  by (simp add: utf8_code_point_def)

lemma utf8_encode_eq_Nil: "utf8_encode s = [] \<longleftrightarrow> s = []"
  by (induction s rule: utf8_encode.induct) (simp_all add: utf8_code_point_not_Nil)

lemma dek_is_empty_utf8: "dek_is_empty (Bytes (utf8_encode s)) = dek_is_empty (Text s)"
  by (simp add: dek_is_empty_iff utf8_encode_eq_Nil)

lemma deriveKey_utf8: "deriveKey (Bytes (utf8_encode s)) = deriveKey (Text s)"
  by (simp add: deriveKey_def)

lemma encrypt_utf8: "encrypt g p (Bytes (utf8_encode s)) = encrypt g p (Text s)"
  unfolding encrypt_def dek_is_empty_utf8 deriveKey_utf8 by (rule refl)

lemma decrypt_utf8: "decrypt e (Bytes (utf8_encode s)) = decrypt e (Text s)"
  unfolding decrypt_def dek_is_empty_utf8 deriveKey_utf8 by (rule refl)

lemma decrypt_encrypt:
  assumes "data \<noteq> []" and "\<not> dek_is_empty dek"
  shows "\<exists>e. fst (encrypt g data dek) = Inr e \<and> decrypt e dek = Inr data"
proof -
  let ?iv = "fst (randomBytes 16 g)"
  let ?e = "ref_encrypt ?iv data dek"
  have iv: "length ?iv = 16"
    by (simp add: length_randomBytes)
  have e: "fst (encrypt g data dek) = Inr ?e"
    by (simp add: encrypt_reference [OF assms])
  have "16 < length ?e"
    by (simp add: length_ref_encrypt [OF iv])
  then have "decrypt ?e dek = Inr data"
    using assms(2) by (simp add: decrypt_reference ref_decrypt_ref_encrypt [OF iv])
  then show ?thesis
    using e by blast
qed

text \<open>The encoder on a two-byte, a three-byte and a four-byte character (a surrogate
  pair) and on a surrogate without its partner.\<close>

lemma utf8_encode_examples:
  "utf8_encode [0x00E9, 0x5BC6, 0xD83D, 0xDD10, 0xD800, 0x0041] =
     [0xC3, 0xA9, 0xE5, 0xAF, 0x86, 0xF0, 0x9F, 0x94, 0x90, 0xEF, 0xBF, 0xBD, 0x41]"
  by (simp add: utf8_code_point_def is_high_surrogate_def is_low_surrogate_def)

section \<open>The claims\<close>

text \<open>
  Claim C1. For every non-empty plaintext (any byte values) and every non-empty key material,
  text or bytes, and whatever the random source supplies as IV, \<^verbatim>\<open>encrypt\<close> returns an
  envelope, and \<^verbatim>\<open>decrypt\<close> of that envelope under the same key material returns exactly
  the plaintext.
\<close>

theorem decrypt_encrypt_roundtrip:
  assumes "data \<noteq> []" and "\<not> dek_is_empty dek"
  shows "\<exists>e. fst (encrypt g data dek) = Inr e \<and> decrypt e dek = Inr data"
  using assms by (rule decrypt_encrypt)

theorem decrypt_encrypt_roundtrip_witness:
  "\<exists>e. fst (encrypt (\<lambda>i. 0) [1, 2, 3] (Bytes [4, 5])) = Inr e \<and> decrypt e (Bytes [4, 5]) = Inr [1, 2, 3]"
  using decrypt_encrypt_roundtrip [of "[1, 2, 3]" "Bytes [4, 5]" "\<lambda>i. 0"]
  by (simp add: dek_is_empty_def falsy_def)

text \<open>
  Claim C2. \<^verbatim>\<open>decrypt\<close> of an envelope longer than 16 bytes under a non-empty key is the
  reference composition: IV the first 16 bytes, ciphertext the rest, key the SHA-256 of the
  bytes of the key material, reference AES-256-CBC decryption, then validation and removal
  of the PKCS7 padding (a failure of the reference is the generic decryption error). And
  \<^verbatim>\<open>encrypt\<close> is the IV followed by the reference AES-256-CBC/PKCS7 encryption under that
  key and IV. Hence the reference decrypts what the cipher encrypts, and the cipher
  decrypts what the reference encrypts.
\<close>

theorem cipher_is_reference_composition:
  "(16 < length e \<and> \<not> dek_is_empty k \<longrightarrow>
      decrypt e k =
        (case ref_decrypt e k of
           None \<Rightarrow> Inl ''Decryption failed: Wrong key or tampered data''
         | Some q \<Rightarrow> Inr q)) \<and>
   (p \<noteq> [] \<and> \<not> dek_is_empty k \<longrightarrow>
      fst (encrypt g p k) = Inr (ref_encrypt (fst (randomBytes 16 g)) p k) \<and>
      ref_decrypt (ref_encrypt (fst (randomBytes 16 g)) p k) k = Some p) \<and>
   (length iv = 16 \<and> \<not> dek_is_empty k \<longrightarrow> decrypt (ref_encrypt iv p k) k = Inr p)"
proof (intro conjI impI)
  assume "16 < length e \<and> \<not> dek_is_empty k"
  then show "decrypt e k =
      (case ref_decrypt e k of
         None \<Rightarrow> Inl ''Decryption failed: Wrong key or tampered data''
       | Some q \<Rightarrow> Inr q)"
    by (simp add: decrypt_reference)
next
  assume "p \<noteq> [] \<and> \<not> dek_is_empty k"
  then show "fst (encrypt g p k) = Inr (ref_encrypt (fst (randomBytes 16 g)) p k)"
    by (simp add: encrypt_reference)
next
  show "ref_decrypt (ref_encrypt (fst (randomBytes 16 g)) p k) k = Some p"
    by (simp add: ref_decrypt_ref_encrypt length_randomBytes)
next
  assume a: "length iv = 16 \<and> \<not> dek_is_empty k"
  then have "16 < length (ref_encrypt iv p k)"
    by (simp add: length_ref_encrypt)
  then show "decrypt (ref_encrypt iv p k) k = Inr p"
    using a by (simp add: decrypt_reference ref_decrypt_ref_encrypt)
qed

theorem cipher_is_reference_composition_witness:
  "decrypt (replicate 32 7) (Bytes [1]) =
     (case ref_decrypt (replicate 32 7) (Bytes [1]) of
        None \<Rightarrow> Inl ''Decryption failed: Wrong key or tampered data''
      | Some q \<Rightarrow> Inr q) \<and>
   fst (encrypt (\<lambda>i. 0) [9] (Bytes [1])) = Inr (ref_encrypt (fst (randomBytes 16 (\<lambda>i. 0))) [9] (Bytes [1])) \<and>
   ref_decrypt (ref_encrypt (fst (randomBytes 16 (\<lambda>i. 0))) [9] (Bytes [1])) (Bytes [1]) = Some [9] \<and>
   decrypt (ref_encrypt (replicate 16 0) [9] (Bytes [1])) (Bytes [1]) = Inr [9]"
  using cipher_is_reference_composition
    [of "replicate 32 7" "Bytes [1]" "[9]" "\<lambda>i. 0" "replicate 16 0"]
  by (simp add: dek_is_empty_def falsy_def)

text \<open>
  Claim C3. For every non-empty plaintext \<open>p\<close> and non-empty key, the envelope returned by
  \<^verbatim>\<open>encrypt\<close> has length \<open>16 + 16 * ceil ((len p + 1) / 16)\<close>; when \<open>len p\<close> is a multiple of
  16 that is a full extra block of padding. The 13 bytes of \<^verbatim>\<open>Hello, World!\<close> under the key
  \<^verbatim>\<open>test-key\<close> give an envelope of 32 bytes.
\<close>

theorem envelope_length_law:
  "(data \<noteq> [] \<and> \<not> dek_is_empty dek \<longrightarrow>
      (\<exists>e. fst (encrypt g data dek) = Inr e \<and>
         int (length e) = 16 + 16 * \<lceil>(real (length data) + 1) / 16\<rceil> \<and>
         (length data mod 16 = 0 \<longrightarrow> length e = 16 + length data + 16))) \<and>
   (\<exists>e. fst (encrypt g (ascii ''Hello, World!'') (Text (js ''test-key''))) = Inr e \<and> length e = 32)"
proof -
  have len: "\<exists>e. fst (encrypt g d k) = Inr e \<and> length e = 16 + 16 * (length d div 16 + 1)"
    if "d \<noteq> []" "\<not> dek_is_empty k" for d k
    using that by (simp add: encrypt_reference length_ref_encrypt length_randomBytes)
  have ceil: "\<lceil>(real n + 1) / 16\<rceil> = int (n div 16) + 1" for n :: nat
  proof -
    define x y where "x = n div 16" and "y = n mod 16"
    have n: "n = 16 * x + y" and y: "y < 16"
      by (simp_all add: x_def y_def)
    have "real_of_int (int x + 1) - 1 < (real n + 1) / 16"
      using y by (simp add: n)
    moreover have "(real n + 1) / 16 \<le> real_of_int (int x + 1)"
      using y by (simp add: n)
    ultimately have "\<lceil>(real n + 1) / 16\<rceil> = int x + 1"
      by (rule ceiling_unique)
    then show ?thesis
      by (simp add: x_def)
  qed
  have general: "\<exists>e. fst (encrypt g data dek) = Inr e \<and>
      int (length e) = 16 + 16 * \<lceil>(real (length data) + 1) / 16\<rceil> \<and>
      (length data mod 16 = 0 \<longrightarrow> length e = 16 + length data + 16)"
    if a: "data \<noteq> [] \<and> \<not> dek_is_empty dek"
  proof -
    obtain e where e: "fst (encrypt g data dek) = Inr e"
      and l: "length e = 16 + 16 * (length data div 16 + 1)"
      using len [of data dek] a by blast
    have "int (length e) = 16 + 16 * (int (length data div 16) + 1)"
      by (simp only: l) simp
    then have c: "int (length e) = 16 + 16 * \<lceil>(real (length data) + 1) / 16\<rceil>"
      by (simp only: ceil)
    have m: "length e = 16 + length data + 16" if "length data mod 16 = 0"
    proof -
      have "16 * (length data div 16) + length data mod 16 = length data"
        by (rule mult_div_mod_eq)
      then have eq: "16 * (length data div 16) = length data"
        by (simp only: that add_0_right)
      have "length e = 16 + (16 * (length data div 16) + 16)"
        by (simp only: l distrib_left mult_1_right)
      then show ?thesis
        by (simp only: eq)
    qed
    show ?thesis
    proof (intro exI [of _ e] conjI impI)
      show "fst (encrypt g data dek) = Inr e"
        by (fact e)
      show "int (length e) = 16 + 16 * \<lceil>(real (length data) + 1) / 16\<rceil>"
        by (fact c)
      show "length e = 16 + length data + 16" if "length data mod 16 = 0"
        using that by (rule m)
    qed
  qed
  have h1: "ascii ''Hello, World!'' \<noteq> []"
    by (simp add: ascii_def)
  have h2: "length (ascii ''Hello, World!'') = 13"
    by (simp add: ascii_def)
  have h3: "\<not> dek_is_empty (Text (js ''test-key''))"
    by (simp add: dek_is_empty_iff js_def)
  have hello: "\<exists>e. fst (encrypt g (ascii ''Hello, World!'') (Text (js ''test-key''))) = Inr e \<and>
      length e = 32"
    using len [OF h1 h3] by (simp only: h2) simp
  show ?thesis
  proof (intro conjI impI)
    assume "data \<noteq> [] \<and> \<not> dek_is_empty dek"
    then show "\<exists>e. fst (encrypt g data dek) = Inr e \<and>
        int (length e) = 16 + 16 * \<lceil>(real (length data) + 1) / 16\<rceil> \<and>
        (length data mod 16 = 0 \<longrightarrow> length e = 16 + length data + 16)"
      by (rule general)
  next
    show "\<exists>e. fst (encrypt g (ascii ''Hello, World!'') (Text (js ''test-key''))) = Inr e \<and>
        length e = 32"
      by (rule hello)
  qed
qed

theorem envelope_length_law_witness:
  "\<exists>e. fst (encrypt (\<lambda>i. 0) (replicate 16 5) (Bytes [1])) = Inr e \<and> length e = 48"
proof -
  have "replicate 16 (5 :: byte) \<noteq> [] \<and> \<not> dek_is_empty (Bytes [1])"
    by (simp add: dek_is_empty_def falsy_def)
  then have "\<exists>e. fst (encrypt (\<lambda>i. 0) (replicate 16 5) (Bytes [1])) = Inr e \<and>
      int (length e) = 16 + 16 * \<lceil>(real (length (replicate 16 (5 :: byte))) + 1) / 16\<rceil> \<and>
      (length (replicate 16 (5 :: byte)) mod 16 = 0 \<longrightarrow>
         length e = 16 + length (replicate 16 (5 :: byte)) + 16)"
    using envelope_length_law [of "replicate 16 5" "Bytes [1]" "\<lambda>i. 0"] by blast
  then show ?thesis
    by auto
qed

text \<open>
  Claim C4. Once the two input checks of \<^verbatim>\<open>decrypt\<close> have passed, a failure has one shape
  only, the error with the message \<^verbatim>\<open>Decryption failed: Wrong key or tampered data\<close>,
  whatever caused it: an envelope whose ciphertext is not a whole number of 16-byte blocks
  fails with it, and so does one whose decryption does not end in valid padding (wrong key,
  changed IV or ciphertext).
\<close>

theorem decrypt_failure_is_generic:
  "16 < length e \<and> \<not> dek_is_empty dek \<longrightarrow>
     ((\<exists>q. decrypt e dek = Inr q) \<or>
        decrypt e dek = Inl ''Decryption failed: Wrong key or tampered data'') \<and>
     (0 < length (drop 16 e) mod 16 \<longrightarrow>
        decrypt e dek = Inl ''Decryption failed: Wrong key or tampered data'') \<and>
     (ref_decrypt e dek = None \<longrightarrow>
        decrypt e dek = Inl ''Decryption failed: Wrong key or tampered data'')"
proof (intro impI)
  assume a: "16 < length e \<and> \<not> dek_is_empty dek"
  then have d: "decrypt e dek =
      (case ref_decrypt e dek of
         None \<Rightarrow> Inl ''Decryption failed: Wrong key or tampered data''
       | Some q \<Rightarrow> Inr q)"
    by (simp add: decrypt_reference)
  have "ref_decrypt e dek = None" if "0 < length (drop 16 e) mod 16"
    using that by (simp add: ref_decrypt_def ref_aes256_cbc_decrypt_def)
  then show "((\<exists>q. decrypt e dek = Inr q) \<or>
        decrypt e dek = Inl ''Decryption failed: Wrong key or tampered data'') \<and>
     (0 < length (drop 16 e) mod 16 \<longrightarrow>
        decrypt e dek = Inl ''Decryption failed: Wrong key or tampered data'') \<and>
     (ref_decrypt e dek = None \<longrightarrow>
        decrypt e dek = Inl ''Decryption failed: Wrong key or tampered data'')"
    unfolding d by (cases "ref_decrypt e dek") auto
qed

theorem decrypt_failure_is_generic_witness:
  "decrypt (replicate 20 7) (Bytes [1]) = Inl ''Decryption failed: Wrong key or tampered data''"
  using decrypt_failure_is_generic [of "replicate 20 7" "Bytes [1]"]
  by (simp add: dek_is_empty_def falsy_def)

text \<open>
  Claim C6. \<^verbatim>\<open>encrypt\<close> fails on its input checks exactly when the plaintext is empty or the
  key material is empty (the empty string or the empty byte sequence), with one message for
  the plaintext and another for the key. The checks come first: the random source is left
  untouched, and the error is the check's own message, not one wrapped as
  \<^verbatim>\<open>Encryption failed: ...\<close>. With both inputs non-empty \<^verbatim>\<open>encrypt\<close> does not fail.
\<close>

theorem encrypt_input_validation:
  "(data = [] \<longrightarrow> encrypt g data dek = (Inl ''Data to encrypt cannot be empty'', g)) \<and>
   (data \<noteq> [] \<and> dek_is_empty dek \<longrightarrow>
      encrypt g data dek = (Inl ''DEK (Data Encryption Key) cannot be empty'', g)) \<and>
   (data \<noteq> [] \<and> \<not> dek_is_empty dek \<longrightarrow> (\<exists>e. fst (encrypt g data dek) = Inr e)) \<and>
   (dek_is_empty dek \<longleftrightarrow> dek = Text [] \<or> dek = Bytes []) \<and>
   ''Data to encrypt cannot be empty'' \<noteq> ''DEK (Data Encryption Key) cannot be empty''"
proof (intro conjI impI)
  assume "data = []"
  then show "encrypt g data dek = (Inl ''Data to encrypt cannot be empty'', g)"
    by (simp add: encrypt_def)
next
  assume "data \<noteq> [] \<and> dek_is_empty dek"
  then show "encrypt g data dek = (Inl ''DEK (Data Encryption Key) cannot be empty'', g)"
    by (simp add: encrypt_def)
next
  assume "data \<noteq> [] \<and> \<not> dek_is_empty dek"
  then show "\<exists>e. fst (encrypt g data dek) = Inr e"
    by (simp add: encrypt_reference)
next
  show "dek_is_empty dek \<longleftrightarrow> dek = Text [] \<or> dek = Bytes []"
    by (rule dek_is_empty_iff)
next
  show "''Data to encrypt cannot be empty'' \<noteq> ''DEK (Data Encryption Key) cannot be empty''"
    by simp
qed

theorem encrypt_input_validation_witness:
  "encrypt (\<lambda>i. 0) [] (Bytes [1]) = (Inl ''Data to encrypt cannot be empty'', \<lambda>i. 0) \<and>
   encrypt (\<lambda>i. 0) [1] (Text []) = (Inl ''DEK (Data Encryption Key) cannot be empty'', \<lambda>i. 0) \<and>
   encrypt (\<lambda>i. 0) [1] (Bytes []) = (Inl ''DEK (Data Encryption Key) cannot be empty'', \<lambda>i. 0) \<and>
   (\<exists>e. fst (encrypt (\<lambda>i. 0) [1] (Bytes [1])) = Inr e)"
  using encrypt_input_validation [of "[]" "\<lambda>i. 0" "Bytes [1]"]
    encrypt_input_validation [of "[1]" "\<lambda>i. 0" "Text []"]
    encrypt_input_validation [of "[1]" "\<lambda>i. 0" "Bytes []"]
    encrypt_input_validation [of "[1]" "\<lambda>i. 0" "Bytes [1]"]
  by simp

text \<open>
  Claim C7. \<^verbatim>\<open>decrypt\<close> of an envelope of at most 16 bytes (the empty one included) fails
  with the too-short error whatever the key material is; \<^verbatim>\<open>decrypt\<close> of a longer envelope
  with empty key material fails with the empty-key error. Both results are fixed by the
  checks alone: the first does not depend on the key, the second not on the bytes of the
  envelope.
\<close>

theorem decrypt_input_validation:
  "(length e \<le> 16 \<longrightarrow>
      decrypt e dek = Inl ''Encrypted data is too short or empty (must be > 16 bytes)'') \<and>
   (16 < length e \<and> dek_is_empty dek \<longrightarrow>
      decrypt e dek = Inl ''DEK (Data Encryption Key) cannot be empty'')"
  by (simp add: decrypt_def IV_LENGTH_def)

theorem decrypt_input_validation_witness:
  "decrypt [] (Bytes [1]) = Inl ''Encrypted data is too short or empty (must be > 16 bytes)'' \<and>
   decrypt (replicate 16 0) (Text []) =
     Inl ''Encrypted data is too short or empty (must be > 16 bytes)'' \<and>
   decrypt (replicate 17 0) (Bytes []) = Inl ''DEK (Data Encryption Key) cannot be empty''"
  using decrypt_input_validation [of "[]" "Bytes [1]"]
    decrypt_input_validation [of "replicate 16 0" "Text []"]
    decrypt_input_validation [of "replicate 17 0" "Bytes []"]
  by (simp add: dek_is_empty_def falsy_def)

text \<open>
  Claim C8. The envelope of a successful \<^verbatim>\<open>encrypt\<close> is the 16 bytes the random source
  supplied for that call followed by the ciphertext and nothing else: the bytes after the
  first 16 are what the cipher engine returned from \<^verbatim>\<open>update\<close> and \<^verbatim>\<open>final\<close>, which is the
  AES-256-CBC/PKCS7 encryption of the plaintext under the derived key and that IV, of
  positive length that is a multiple of 16, and which decrypts to the plaintext. The call
  takes exactly those 16 bytes from the source. Two successful calls whose IVs differ return
  different envelopes.
\<close>

theorem envelope_layout:
  "(data \<noteq> [] \<and> \<not> dek_is_empty dek \<longrightarrow>
      (\<exists>e. encrypt g data dek = (Inr e, snd (randomBytes 16 g)) \<and>
         take 16 e = fst (randomBytes 16 g) \<and>
         length (fst (randomBytes 16 g)) = 16 \<and>
         e = fst (randomBytes 16 g) @ drop 16 e \<and>
         (\<exists>cipher fin.
            createCipheriv ALGORITHM (deriveKey dek) (fst (randomBytes 16 g)) = Inr cipher \<and>
            cipher_final (snd (cipher_update cipher data)) = Inr fin \<and>
            drop 16 e = fst (cipher_update cipher data) @ fin) \<and>
         drop 16 e = ref_aes256_cbc_encrypt (deriveKey dek) (fst (randomBytes 16 g)) data \<and>
         ref_aes256_cbc_decrypt (deriveKey dek) (take 16 e) (drop 16 e) = Some data \<and>
         0 < length (drop 16 e) \<and> length (drop 16 e) mod 16 = 0)) \<and>
   (fst (encrypt g data dek) = Inr e1 \<and> fst (encrypt g' data' dek') = Inr e2 \<and>
      fst (randomBytes 16 g) \<noteq> fst (randomBytes 16 g') \<longrightarrow> e1 \<noteq> e2)"
proof (intro conjI impI)
  assume a: "data \<noteq> [] \<and> \<not> dek_is_empty dek"
  let ?iv = "fst (randomBytes 16 g)"
  let ?key = "deriveKey dek"
  let ?ct = "ref_aes256_cbc_encrypt ?key ?iv data"
  let ?e = "ref_encrypt ?iv data dek"
  let ?c0 = "\<lparr>ctx_key = ?key, ctx_chain = ?iv, ctx_buf = []\<rparr>"
  have iv: "length ?iv = 16"
    by (simp add: length_randomBytes)
  have e: "?e = ?iv @ ?ct"
    by (simp add: ref_encrypt_def deriveKey_key_bytes)
  have tk: "take 16 ?e = ?iv" and dr: "drop 16 ?e = ?ct"
    using iv by (simp_all add: e)
  have l: "length ?e = 16 + 16 * (length data div 16 + 1)"
    by (rule length_ref_encrypt [OF iv])
  have d: "length (drop 16 ?e) = 16 * (length data div 16 + 1)"
    by (simp only: length_drop l)
  have c: "createCipheriv ALGORITHM ?key ?iv = Inr ?c0"
    using iv by (simp add: createCipheriv_def new_ctx_ok length_deriveKey)
  obtain fin where fin: "cipher_final (snd (cipher_update ?c0 data)) = Inr fin"
    and out: "fst (cipher_update ?c0 data) @ fin = fst (cbc_encrypt_blocks ?key ?iv (ref_pkcs7_pad data))"
    using cipher_update_final [of ?key ?iv data] by blast
  have "16 dvd length (ref_pkcs7_pad data)"
    by (simp add: length_ref_pkcs7_pad)
  then have "fst (cbc_encrypt_blocks ?key ?iv (ref_pkcs7_pad data)) = ?ct"
    by (simp add: cbc_encrypt_blocks_ref ref_aes256_cbc_encrypt_def)
  then have engine: "drop 16 ?e = fst (cipher_update ?c0 data) @ fin"
    by (simp only: dr out)
  have "ref_decrypt ?e dek = Some data"
    by (rule ref_decrypt_ref_encrypt [OF iv])
  then have dec: "ref_aes256_cbc_decrypt ?key (take 16 ?e) (drop 16 ?e) = Some data"
    by (simp only: ref_decrypt_def deriveKey_key_bytes)
  show "\<exists>e. encrypt g data dek = (Inr e, snd (randomBytes 16 g)) \<and>
      take 16 e = fst (randomBytes 16 g) \<and>
      length (fst (randomBytes 16 g)) = 16 \<and>
      e = fst (randomBytes 16 g) @ drop 16 e \<and>
      (\<exists>cipher fin.
         createCipheriv ALGORITHM (deriveKey dek) (fst (randomBytes 16 g)) = Inr cipher \<and>
         cipher_final (snd (cipher_update cipher data)) = Inr fin \<and>
         drop 16 e = fst (cipher_update cipher data) @ fin) \<and>
      drop 16 e = ref_aes256_cbc_encrypt (deriveKey dek) (fst (randomBytes 16 g)) data \<and>
      ref_aes256_cbc_decrypt (deriveKey dek) (take 16 e) (drop 16 e) = Some data \<and>
      0 < length (drop 16 e) \<and> length (drop 16 e) mod 16 = 0"
  proof (intro exI [of _ ?e] conjI)
    show "encrypt g data dek = (Inr ?e, snd (randomBytes 16 g))"
      using a by (simp add: encrypt_reference)
    show "take 16 ?e = ?iv"
      by (fact tk)
    show "length ?iv = 16"
      by (fact iv)
    show "?e = ?iv @ drop 16 ?e"
      unfolding dr by (rule e)
    show "\<exists>cipher fin.
        createCipheriv ALGORITHM ?key ?iv = Inr cipher \<and>
        cipher_final (snd (cipher_update cipher data)) = Inr fin \<and>
        drop 16 ?e = fst (cipher_update cipher data) @ fin"
      using c fin engine by (intro exI [of _ ?c0] exI [of _ fin] conjI)
    show "drop 16 ?e = ?ct"
      by (fact dr)
    show "ref_aes256_cbc_decrypt ?key (take 16 ?e) (drop 16 ?e) = Some data"
      by (fact dec)
    show "0 < length (drop 16 ?e)"
      by (simp only: d) simp
    show "length (drop 16 ?e) mod 16 = 0"
      by (simp only: d) simp
  qed
next
  assume b: "fst (encrypt g data dek) = Inr e1 \<and> fst (encrypt g' data' dek') = Inr e2 \<and>
      fst (randomBytes 16 g) \<noteq> fst (randomBytes 16 g')"
  have prefix: "take 16 x = fst (randomBytes 16 h)" if "fst (encrypt h d k) = Inr x" for h d k x
  proof -
    have "d \<noteq> []"
      using that by (cases "d = []") (simp_all add: encrypt_empty_data)
    moreover from this have "\<not> dek_is_empty k"
      using that by (cases "dek_is_empty k") (simp_all add: encrypt_empty_dek)
    ultimately have "encrypt h d k = (Inr (ref_encrypt (fst (randomBytes 16 h)) d k), snd (randomBytes 16 h))"
      by (rule encrypt_reference)
    then have "x = ref_encrypt (fst (randomBytes 16 h)) d k"
      using that by simp
    then show ?thesis
      by (simp add: ref_encrypt_def length_randomBytes)
  qed
  have "take 16 e1 = fst (randomBytes 16 g)"
    using b by (intro prefix [of g data dek e1]) simp
  moreover have "take 16 e2 = fst (randomBytes 16 g')"
    using b by (intro prefix [of g' data' dek' e2]) simp
  ultimately have "take 16 e1 \<noteq> take 16 e2"
    using b by simp
  then show "e1 \<noteq> e2"
    by blast
qed

theorem envelope_layout_witness:
  "(\<exists>e. encrypt (\<lambda>i. 0) [1] (Bytes [2]) = (Inr e, snd (randomBytes 16 (\<lambda>i. 0))) \<and>
      take 16 e = fst (randomBytes 16 (\<lambda>i. 0)) \<and>
      e = fst (randomBytes 16 (\<lambda>i. 0)) @ drop 16 e \<and>
      (\<exists>cipher fin.
         createCipheriv ALGORITHM (deriveKey (Bytes [2])) (fst (randomBytes 16 (\<lambda>i. 0))) = Inr cipher \<and>
         cipher_final (snd (cipher_update cipher [1])) = Inr fin \<and>
         drop 16 e = fst (cipher_update cipher [1]) @ fin) \<and>
      drop 16 e =
        ref_aes256_cbc_encrypt (deriveKey (Bytes [2])) (fst (randomBytes 16 (\<lambda>i. 0))) [1] \<and>
      ref_aes256_cbc_decrypt (deriveKey (Bytes [2])) (take 16 e) (drop 16 e) = Some [1] \<and>
      0 < length (drop 16 e) \<and> length (drop 16 e) mod 16 = 0) \<and>
   projr (fst (encrypt (\<lambda>i. 0) [1] (Bytes [2]))) \<noteq> projr (fst (encrypt (\<lambda>i. 1) [1] (Bytes [2])))"
proof -
  have ok: "[1 :: byte] \<noteq> [] \<and> \<not> dek_is_empty (Bytes [2])"
    by (simp add: dek_is_empty_def falsy_def)
  have "fst (randomBytes 16 (\<lambda>i. 0)) = replicate 16 0"
    and "fst (randomBytes 16 (\<lambda>i. 1)) = replicate 16 1"
    by (simp_all add: randomBytes_def map_replicate_const del: upt_rec_numeral)
  then have ivs: "fst (randomBytes 16 (\<lambda>i. 0)) \<noteq> fst (randomBytes 16 (\<lambda>i. 1))"
    by simp
  have first: "\<exists>e. encrypt (\<lambda>i. 0) [1] (Bytes [2]) = (Inr e, snd (randomBytes 16 (\<lambda>i. 0))) \<and>
      take 16 e = fst (randomBytes 16 (\<lambda>i. 0)) \<and>
      length (fst (randomBytes 16 (\<lambda>i. 0))) = 16 \<and>
      e = fst (randomBytes 16 (\<lambda>i. 0)) @ drop 16 e \<and>
      (\<exists>cipher fin.
         createCipheriv ALGORITHM (deriveKey (Bytes [2])) (fst (randomBytes 16 (\<lambda>i. 0))) = Inr cipher \<and>
         cipher_final (snd (cipher_update cipher [1])) = Inr fin \<and>
         drop 16 e = fst (cipher_update cipher [1]) @ fin) \<and>
      drop 16 e =
        ref_aes256_cbc_encrypt (deriveKey (Bytes [2])) (fst (randomBytes 16 (\<lambda>i. 0))) [1] \<and>
      ref_aes256_cbc_decrypt (deriveKey (Bytes [2])) (take 16 e) (drop 16 e) = Some [1] \<and>
      0 < length (drop 16 e) \<and> length (drop 16 e) mod 16 = 0"
    using envelope_layout [THEN conjunct1, of "[1]" "Bytes [2]" "\<lambda>i. 0"] ok by (rule mp)
  have second: "\<exists>e. encrypt (\<lambda>i. 1) [1] (Bytes [2]) = (Inr e, snd (randomBytes 16 (\<lambda>i. 1)))"
  proof -
    have "\<exists>e. encrypt (\<lambda>i. 1) [1] (Bytes [2]) = (Inr e, snd (randomBytes 16 (\<lambda>i. 1))) \<and>
        take 16 e = fst (randomBytes 16 (\<lambda>i. 1)) \<and>
        length (fst (randomBytes 16 (\<lambda>i. 1))) = 16 \<and>
        e = fst (randomBytes 16 (\<lambda>i. 1)) @ drop 16 e \<and>
        (\<exists>cipher fin.
           createCipheriv ALGORITHM (deriveKey (Bytes [2])) (fst (randomBytes 16 (\<lambda>i. 1))) = Inr cipher \<and>
           cipher_final (snd (cipher_update cipher [1])) = Inr fin \<and>
           drop 16 e = fst (cipher_update cipher [1]) @ fin) \<and>
        drop 16 e =
          ref_aes256_cbc_encrypt (deriveKey (Bytes [2])) (fst (randomBytes 16 (\<lambda>i. 1))) [1] \<and>
        ref_aes256_cbc_decrypt (deriveKey (Bytes [2])) (take 16 e) (drop 16 e) = Some [1] \<and>
        0 < length (drop 16 e) \<and> length (drop 16 e) mod 16 = 0"
      using envelope_layout [THEN conjunct1, of "[1]" "Bytes [2]" "\<lambda>i. 1"] ok by (rule mp)
    then show ?thesis
      by (elim exE conjE) (rule exI)
  qed
  from first obtain e where e: "encrypt (\<lambda>i. 0) [1] (Bytes [2]) = (Inr e, snd (randomBytes 16 (\<lambda>i. 0)))"
    by (elim exE conjE)
  from second obtain e' where e': "encrypt (\<lambda>i. 1) [1] (Bytes [2]) = (Inr e', snd (randomBytes 16 (\<lambda>i. 1)))"
    by (elim exE)
  have "fst (encrypt (\<lambda>i. 0) [1] (Bytes [2])) = Inr e \<and>
      fst (encrypt (\<lambda>i. 1) [1] (Bytes [2])) = Inr e' \<and>
      fst (randomBytes 16 (\<lambda>i. 0)) \<noteq> fst (randomBytes 16 (\<lambda>i. 1))"
    by (simp only: e e' fst_conv ivs simp_thms)
  then have "e \<noteq> e'"
    by (rule envelope_layout [THEN conjunct2, THEN mp])
  then have "projr (fst (encrypt (\<lambda>i. 0) [1] (Bytes [2]))) \<noteq>
      projr (fst (encrypt (\<lambda>i. 1) [1] (Bytes [2])))"
    by (simp add: e e')
  moreover have "\<exists>e. encrypt (\<lambda>i. 0) [1] (Bytes [2]) = (Inr e, snd (randomBytes 16 (\<lambda>i. 0))) \<and>
      take 16 e = fst (randomBytes 16 (\<lambda>i. 0)) \<and>
      e = fst (randomBytes 16 (\<lambda>i. 0)) @ drop 16 e \<and>
      (\<exists>cipher fin.
         createCipheriv ALGORITHM (deriveKey (Bytes [2])) (fst (randomBytes 16 (\<lambda>i. 0))) = Inr cipher \<and>
         cipher_final (snd (cipher_update cipher [1])) = Inr fin \<and>
         drop 16 e = fst (cipher_update cipher [1]) @ fin) \<and>
      drop 16 e =
        ref_aes256_cbc_encrypt (deriveKey (Bytes [2])) (fst (randomBytes 16 (\<lambda>i. 0))) [1] \<and>
      ref_aes256_cbc_decrypt (deriveKey (Bytes [2])) (take 16 e) (drop 16 e) = Some [1] \<and>
      0 < length (drop 16 e) \<and> length (drop 16 e) mod 16 = 0"
    using first by (elim exE conjE) (intro exI conjI)
  ultimately show ?thesis
    by (intro conjI)
qed

text \<open>
  Claim C9. The derived key is a function of the key material alone, always 32 bytes long,
  and a string gives the key of its UTF-8 bytes. So a string and its UTF-8 bytes are the
  same key material to \<^verbatim>\<open>encrypt\<close> and to \<^verbatim>\<open>decrypt\<close>: what is encrypted under the one is
  decrypted under the other, for every non-empty plaintext and (non-empty) string.
\<close>

theorem text_key_is_its_utf8_bytes:
  "deriveKey (Text s) = deriveKey (Bytes (utf8_encode s)) \<and>
   length (deriveKey k) = 32 \<and>
   encrypt g p (Text s) = encrypt g p (Bytes (utf8_encode s)) \<and>
   decrypt e (Text s) = decrypt e (Bytes (utf8_encode s)) \<and>
   (p \<noteq> [] \<and> s \<noteq> [] \<longrightarrow>
      (\<exists>e1. fst (encrypt g p (Text s)) = Inr e1 \<and> decrypt e1 (Bytes (utf8_encode s)) = Inr p) \<and>
      (\<exists>e2. fst (encrypt g p (Bytes (utf8_encode s))) = Inr e2 \<and> decrypt e2 (Text s) = Inr p))"
proof (intro conjI impI)
  show "deriveKey (Text s) = deriveKey (Bytes (utf8_encode s))"
    by (simp only: deriveKey_utf8)
  show "length (deriveKey k) = 32"
    by (rule length_deriveKey)
  show "encrypt g p (Text s) = encrypt g p (Bytes (utf8_encode s))"
    by (simp only: encrypt_utf8)
  show "decrypt e (Text s) = decrypt e (Bytes (utf8_encode s))"
    by (simp only: decrypt_utf8)
next
  assume a: "p \<noteq> [] \<and> s \<noteq> []"
  then have ok: "p \<noteq> []" "\<not> dek_is_empty (Text s)"
    by (simp_all add: dek_is_empty_iff)
  obtain x where x: "fst (encrypt g p (Text s)) = Inr x" "decrypt x (Text s) = Inr p"
    using decrypt_encrypt [OF ok] by blast
  show "\<exists>e1. fst (encrypt g p (Text s)) = Inr e1 \<and> decrypt e1 (Bytes (utf8_encode s)) = Inr p"
    using x by (simp add: decrypt_utf8)
  show "\<exists>e2. fst (encrypt g p (Bytes (utf8_encode s))) = Inr e2 \<and> decrypt e2 (Text s) = Inr p"
    using x by (simp add: encrypt_utf8)
qed

theorem text_key_is_its_utf8_bytes_witness:
  "(\<exists>e1. fst (encrypt (\<lambda>i. 0) [1] (Text [0x6B, 0xE9])) = Inr e1 \<and>
      decrypt e1 (Bytes (utf8_encode [0x6B, 0xE9])) = Inr [1]) \<and>
   (\<exists>e2. fst (encrypt (\<lambda>i. 0) [1] (Bytes (utf8_encode [0x6B, 0xE9]))) = Inr e2 \<and>
      decrypt e2 (Text [0x6B, 0xE9]) = Inr [1])"
proof -
  have "[1 :: byte] \<noteq> [] \<and> [0x6B, 0xE9 :: 16 word] \<noteq> []"
    by simp
  then show ?thesis
    by (rule text_key_is_its_utf8_bytes [THEN conjunct2, THEN conjunct2, THEN conjunct2,
          THEN conjunct2, THEN mp])
qed

text \<open>
  Claim C10. When both inputs are bad, the check on the data comes first: \<^verbatim>\<open>encrypt\<close> of
  an empty plaintext with empty key material reports the empty plaintext, and \<^verbatim>\<open>decrypt\<close>
  of an envelope of at most 16 bytes with empty key material reports the short envelope.
\<close>

theorem data_check_precedes_key_check:
  "(dek_is_empty dek \<longrightarrow>
      fst (encrypt g [] dek) = Inl ''Data to encrypt cannot be empty'') \<and>
   (length e \<le> 16 \<and> dek_is_empty dek \<longrightarrow>
      decrypt e dek = Inl ''Encrypted data is too short or empty (must be > 16 bytes)'')"
  by (simp add: encrypt_def decrypt_def IV_LENGTH_def)

theorem data_check_precedes_key_check_witness:
  "fst (encrypt (\<lambda>i. 0) [] (Text [])) = Inl ''Data to encrypt cannot be empty'' \<and>
   fst (encrypt (\<lambda>i. 0) [] (Bytes [])) = Inl ''Data to encrypt cannot be empty'' \<and>
   decrypt [1, 2, 3] (Text []) =
     Inl ''Encrypted data is too short or empty (must be > 16 bytes)'' \<and>
   decrypt [] (Bytes []) = Inl ''Encrypted data is too short or empty (must be > 16 bytes)''"
  using data_check_precedes_key_check [of "Text []" "\<lambda>i. 0" "[1, 2, 3]"]
    data_check_precedes_key_check [of "Bytes []" "\<lambda>i. 0" "[]"]
  by (simp add: dek_is_empty_def falsy_def)


section \<open>The primitives on known answers\<close>

text \<open>
  The models of the primitives are run on published vectors: the SHA-256 digest of
  \<^verbatim>\<open>abc\<close> (FIPS 180-4) and the first block of the CBC-AES256 example of SP 800-38A, F.2.5,
  the vector of \<^verbatim>\<open>AES256Cipher.nist.test.ts\<close>. The digests and blocks of the keys
  \<^verbatim>\<open>test-key\<close> and \<^verbatim>\<open>test-kez\<close> are computed for an example further down.
\<close>

lemmas sha256_eval =
  sha256_block_def sha256_init_def sha256_k_def be32_def Let_def
  small_sigma0_def small_sigma1_def big_sigma0_def big_sigma1_def ch_def maj_def rotr_def

lemmas aes256_eval =
  aes256_encrypt_block_def aes256_decrypt_block_def key_expansion_def rcons_def Let_def
  sbox_def sbox_table_def inv_sbox_def inv_sbox_table_def add_round_key_def sub_bytes_def
  inv_sub_bytes_def mix_column_def inv_mix_column_def mul2_def mul3_def mul9_def mul11_def
  mul13_def mul14_def xtime_def

lemma sha256_one_block:
  assumes "length m = 64"
  shows "sha256_blocks s m = sha256_block s m"
proof -
  have ne: "m \<noteq> []"
    using assms by auto
  have "sha256_blocks s m = sha256_blocks (sha256_block s (take 64 m)) (drop 64 m)"
    using ne by (subst sha256_blocks.simps) simp
  also have "\<dots> = sha256_block s m"
    using assms by (subst sha256_blocks.simps) simp
  finally show ?thesis .
qed

lemma sha256_pad_abc:
  "sha256_pad (ascii ''abc'') =
     [0x61, 0x62, 0x63, 0x80, 0x00, 0x00, 0x00, 0x00, 0x00, 0x00, 0x00, 0x00, 0x00, 0x00,
      0x00, 0x00, 0x00, 0x00, 0x00, 0x00, 0x00, 0x00, 0x00, 0x00, 0x00, 0x00, 0x00, 0x00,
      0x00, 0x00, 0x00, 0x00, 0x00, 0x00, 0x00, 0x00, 0x00, 0x00, 0x00, 0x00, 0x00, 0x00,
      0x00, 0x00, 0x00, 0x00, 0x00, 0x00, 0x00, 0x00, 0x00, 0x00, 0x00, 0x00, 0x00, 0x00,
      0x00, 0x00, 0x00, 0x00, 0x00, 0x00, 0x00, 0x18]"
  by code_simp

lemma sha256_block_abc:
  "sha256_block sha256_init
     [0x61, 0x62, 0x63, 0x80, 0x00, 0x00, 0x00, 0x00, 0x00, 0x00, 0x00, 0x00, 0x00, 0x00,
      0x00, 0x00, 0x00, 0x00, 0x00, 0x00, 0x00, 0x00, 0x00, 0x00, 0x00, 0x00, 0x00, 0x00,
      0x00, 0x00, 0x00, 0x00, 0x00, 0x00, 0x00, 0x00, 0x00, 0x00, 0x00, 0x00, 0x00, 0x00,
      0x00, 0x00, 0x00, 0x00, 0x00, 0x00, 0x00, 0x00, 0x00, 0x00, 0x00, 0x00, 0x00, 0x00,
      0x00, 0x00, 0x00, 0x00, 0x00, 0x00, 0x00, 0x18] =
     (0xBA7816BF, 0x8F01CFEA, 0x414140DE, 0x5DAE2223, 0xB00361A3, 0x96177A9C, 0xB410FF61,
      0xF20015AD)"
  by (simp add: sha256_eval)

lemma sha256_abc:
  "sha256 (ascii ''abc'') =
     [0xba, 0x78, 0x16, 0xbf, 0x8f, 0x01, 0xcf, 0xea, 0x41, 0x41, 0x40, 0xde, 0x5d, 0xae,
      0x22, 0x23, 0xb0, 0x03, 0x61, 0xa3, 0x96, 0x17, 0x7a, 0x9c, 0xb4, 0x10, 0xff, 0x61,
      0xf2, 0x00, 0x15, 0xad]"
  by (simp add: sha256_def sha256_pad_abc sha256_one_block sha256_block_abc word32_bytes_def)

lemma sha256_pad_test_key:
  "sha256_pad (ascii ''test-key'') =
     [0x74, 0x65, 0x73, 0x74, 0x2d, 0x6b, 0x65, 0x79, 0x80, 0x00, 0x00, 0x00, 0x00, 0x00,
      0x00, 0x00, 0x00, 0x00, 0x00, 0x00, 0x00, 0x00, 0x00, 0x00, 0x00, 0x00, 0x00, 0x00,
      0x00, 0x00, 0x00, 0x00, 0x00, 0x00, 0x00, 0x00, 0x00, 0x00, 0x00, 0x00, 0x00, 0x00,
      0x00, 0x00, 0x00, 0x00, 0x00, 0x00, 0x00, 0x00, 0x00, 0x00, 0x00, 0x00, 0x00, 0x00,
      0x00, 0x00, 0x00, 0x00, 0x00, 0x00, 0x00, 0x40]"
  by code_simp

lemma sha256_block_test_key:
  "sha256_block sha256_init
     [0x74, 0x65, 0x73, 0x74, 0x2d, 0x6b, 0x65, 0x79, 0x80, 0x00, 0x00, 0x00, 0x00, 0x00,
      0x00, 0x00, 0x00, 0x00, 0x00, 0x00, 0x00, 0x00, 0x00, 0x00, 0x00, 0x00, 0x00, 0x00,
      0x00, 0x00, 0x00, 0x00, 0x00, 0x00, 0x00, 0x00, 0x00, 0x00, 0x00, 0x00, 0x00, 0x00,
      0x00, 0x00, 0x00, 0x00, 0x00, 0x00, 0x00, 0x00, 0x00, 0x00, 0x00, 0x00, 0x00, 0x00,
      0x00, 0x00, 0x00, 0x00, 0x00, 0x00, 0x00, 0x40] =
     (0x62AF8704, 0x764FAF8E, 0xA82FC61C, 0xE9C4C390, 0x8B6CB97D, 0x463A634E, 0x9E587D7C,
      0x885DB0EF)"
  by (simp add: sha256_eval)

lemma sha256_test_key:
  "sha256 (ascii ''test-key'') =
     [0x62, 0xaf, 0x87, 0x04, 0x76, 0x4f, 0xaf, 0x8e, 0xa8, 0x2f, 0xc6, 0x1c, 0xe9, 0xc4,
      0xc3, 0x90, 0x8b, 0x6c, 0xb9, 0x7d, 0x46, 0x3a, 0x63, 0x4e, 0x9e, 0x58, 0x7d, 0x7c,
      0x88, 0x5d, 0xb0, 0xef]"
  by (simp add: sha256_def sha256_pad_test_key sha256_one_block sha256_block_test_key word32_bytes_def)

lemma sha256_pad_test_kez:
  "sha256_pad (ascii ''test-kez'') =
     [0x74, 0x65, 0x73, 0x74, 0x2d, 0x6b, 0x65, 0x7a, 0x80, 0x00, 0x00, 0x00, 0x00, 0x00,
      0x00, 0x00, 0x00, 0x00, 0x00, 0x00, 0x00, 0x00, 0x00, 0x00, 0x00, 0x00, 0x00, 0x00,
      0x00, 0x00, 0x00, 0x00, 0x00, 0x00, 0x00, 0x00, 0x00, 0x00, 0x00, 0x00, 0x00, 0x00,
      0x00, 0x00, 0x00, 0x00, 0x00, 0x00, 0x00, 0x00, 0x00, 0x00, 0x00, 0x00, 0x00, 0x00,
      0x00, 0x00, 0x00, 0x00, 0x00, 0x00, 0x00, 0x40]"
  by code_simp

lemma sha256_block_test_kez:
  "sha256_block sha256_init
     [0x74, 0x65, 0x73, 0x74, 0x2d, 0x6b, 0x65, 0x7a, 0x80, 0x00, 0x00, 0x00, 0x00, 0x00,
      0x00, 0x00, 0x00, 0x00, 0x00, 0x00, 0x00, 0x00, 0x00, 0x00, 0x00, 0x00, 0x00, 0x00,
      0x00, 0x00, 0x00, 0x00, 0x00, 0x00, 0x00, 0x00, 0x00, 0x00, 0x00, 0x00, 0x00, 0x00,
      0x00, 0x00, 0x00, 0x00, 0x00, 0x00, 0x00, 0x00, 0x00, 0x00, 0x00, 0x00, 0x00, 0x00,
      0x00, 0x00, 0x00, 0x00, 0x00, 0x00, 0x00, 0x40] =
     (0x115CF764, 0x1228BDD6, 0x845AECB3, 0x9636629D, 0xF58039BF, 0x2AC8F94A, 0x211D0A6C,
      0x2FB84834)"
  by (simp add: sha256_eval)

lemma sha256_test_kez:
  "sha256 (ascii ''test-kez'') =
     [0x11, 0x5c, 0xf7, 0x64, 0x12, 0x28, 0xbd, 0xd6, 0x84, 0x5a, 0xec, 0xb3, 0x96, 0x36,
      0x62, 0x9d, 0xf5, 0x80, 0x39, 0xbf, 0x2a, 0xc8, 0xf9, 0x4a, 0x21, 0x1d, 0x0a, 0x6c,
      0x2f, 0xb8, 0x48, 0x34]"
  by (simp add: sha256_def sha256_pad_test_kez sha256_one_block sha256_block_test_kez word32_bytes_def)

lemma aes256_nist_cbc_block:
  "aes256_encrypt_block
     [0x60, 0x3d, 0xeb, 0x10, 0x15, 0xca, 0x71, 0xbe, 0x2b, 0x73, 0xae, 0xf0, 0x85, 0x7d,
      0x77, 0x81, 0x1f, 0x35, 0x2c, 0x07, 0x3b, 0x61, 0x08, 0xd7, 0x2d, 0x98, 0x10, 0xa3,
      0x09, 0x14, 0xdf, 0xf4]
     (xor_bytes [0x6b, 0xc1, 0xbe, 0xe2, 0x2e, 0x40, 0x9f, 0x96, 0xe9, 0x3d, 0x7e, 0x11, 0x73, 0x93,
      0x17, 0x2a]
        [0x00, 0x01, 0x02, 0x03, 0x04, 0x05, 0x06, 0x07, 0x08, 0x09, 0x0a, 0x0b, 0x0c, 0x0d,
      0x0e, 0x0f]) =
     [0xf5, 0x8c, 0x4c, 0x04, 0xd6, 0xe5, 0xf1, 0xba, 0x77, 0x9e, 0xab, 0xfb, 0x5f, 0x7b,
      0xfb, 0xd6]"
  by (simp add: aes256_eval xor_bytes_def)

lemma aes256_encrypt_hello:
  "aes256_encrypt_block
     [0x62, 0xaf, 0x87, 0x04, 0x76, 0x4f, 0xaf, 0x8e, 0xa8, 0x2f, 0xc6, 0x1c, 0xe9, 0xc4,
      0xc3, 0x90, 0x8b, 0x6c, 0xb9, 0x7d, 0x46, 0x3a, 0x63, 0x4e, 0x9e, 0x58, 0x7d, 0x7c,
      0x88, 0x5d, 0xb0, 0xef]
     [0x48, 0x65, 0x6c, 0x6c, 0x6f, 0x2c, 0x20, 0x57, 0x6f, 0x72, 0x6c, 0x64, 0x21, 0x03,
      0x01, 0xce] =
     [0x4f, 0x97, 0x21, 0x41, 0x59, 0x6f, 0x59, 0x21, 0x27, 0x76, 0x4f, 0x92, 0x1a, 0x50,
      0x71, 0x6d]"
  by (simp add: aes256_eval)

lemma aes256_decrypt_hello:
  "aes256_decrypt_block
     [0x11, 0x5c, 0xf7, 0x64, 0x12, 0x28, 0xbd, 0xd6, 0x84, 0x5a, 0xec, 0xb3, 0x96, 0x36,
      0x62, 0x9d, 0xf5, 0x80, 0x39, 0xbf, 0x2a, 0xc8, 0xf9, 0x4a, 0x21, 0x1d, 0x0a, 0x6c,
      0x2f, 0xb8, 0x48, 0x34]
     [0x4f, 0x97, 0x21, 0x41, 0x59, 0x6f, 0x59, 0x21, 0x27, 0x76, 0x4f, 0x92, 0x1a, 0x50,
      0x71, 0x6d] =
     [0xa2, 0x3c, 0xd5, 0xc2, 0xa0, 0x00, 0xf6, 0x36, 0xe7, 0x0d, 0x4d, 0x9c, 0xfa, 0xf1,
      0xe7, 0xcc]"
  by (simp add: aes256_eval)


section \<open>A wrong key that is accepted\<close>

text \<open>
  The envelope of \<^verbatim>\<open>Hello, World!\<close> under the key \<^verbatim>\<open>test-key\<close>, with the [0x00, 0x00, 0x00, 0x00, 0x00, 0x00, 0x00, 0x00, 0x00, 0x00, 0x00, 0x00, 0x00, 0x00,
      0x02, 0xcd] below, decrypts
  under the key \<^verbatim>\<open>test-kez\<close> to a block that happens to end in one byte of value 1, which is
  valid padding.
\<close>

lemma utf8_encode_test_key: "utf8_encode (js ''test-key'') = ascii ''test-key''"
  by (simp add: js_def ascii_def utf8_code_point_def is_high_surrogate_def is_low_surrogate_def)

lemma utf8_encode_test_kez: "utf8_encode (js ''test-kez'') = ascii ''test-kez''"
  by (simp add: js_def ascii_def utf8_code_point_def is_high_surrogate_def is_low_surrogate_def)

lemma randomBytes_source_of:
  "fst (randomBytes 16 (source_of
     [0x00, 0x00, 0x00, 0x00, 0x00, 0x00, 0x00, 0x00, 0x00, 0x00, 0x00, 0x00, 0x00, 0x00,
      0x02, 0xcd])) =
     [0x00, 0x00, 0x00, 0x00, 0x00, 0x00, 0x00, 0x00, 0x00, 0x00, 0x00, 0x00, 0x00, 0x00,
      0x02, 0xcd]"
  by code_simp

lemma ref_pkcs7_pad_hello:
  "ref_pkcs7_pad (ascii ''Hello, World!'') =
     [0x48, 0x65, 0x6c, 0x6c, 0x6f, 0x2c, 0x20, 0x57, 0x6f, 0x72, 0x6c, 0x64, 0x21, 0x03,
      0x03, 0x03]"
  by code_simp

lemma split_blocks_one: "length b = 16 \<Longrightarrow> split_blocks b = [b]"
proof -
  assume l: "length b = 16"
  then have "b \<noteq> []"
    by auto
  then have "split_blocks b = take 16 b # split_blocks (drop 16 b)"
    by (subst split_blocks.simps) simp
  then show ?thesis
    using l by (simp add: split_blocks.simps [of "[]"])
qed

lemma ref_encrypt_hello:
  "ref_encrypt
     [0x00, 0x00, 0x00, 0x00, 0x00, 0x00, 0x00, 0x00, 0x00, 0x00, 0x00, 0x00, 0x00, 0x00,
      0x02, 0xcd]
     (ascii ''Hello, World!'') (Text (js ''test-key'')) =
     [0x00, 0x00, 0x00, 0x00, 0x00, 0x00, 0x00, 0x00, 0x00, 0x00, 0x00, 0x00, 0x00, 0x00,
      0x02, 0xcd, 0x4f, 0x97, 0x21, 0x41, 0x59, 0x6f, 0x59, 0x21, 0x27, 0x76, 0x4f, 0x92,
      0x1a, 0x50, 0x71, 0x6d]"
  by (simp add: ref_encrypt_def ref_aes256_cbc_encrypt_def key_bytes_def utf8_encode_test_key
      sha256_test_key ref_pkcs7_pad_hello split_blocks_one xor_bytes_def aes256_encrypt_hello)

lemma ref_pkcs7_unpad_hello:
  "ref_pkcs7_unpad
     [0xa2, 0x3c, 0xd5, 0xc2, 0xa0, 0x00, 0xf6, 0x36, 0xe7, 0x0d, 0x4d, 0x9c, 0xfa, 0xf1,
      0xe5, 0x01] =
     Some [0xa2, 0x3c, 0xd5, 0xc2, 0xa0, 0x00, 0xf6, 0x36, 0xe7, 0x0d, 0x4d, 0x9c, 0xfa, 0xf1,
      0xe5]"
  by code_simp

lemma ref_decrypt_hello:
  "ref_decrypt
     [0x00, 0x00, 0x00, 0x00, 0x00, 0x00, 0x00, 0x00, 0x00, 0x00, 0x00, 0x00, 0x00, 0x00,
      0x02, 0xcd, 0x4f, 0x97, 0x21, 0x41, 0x59, 0x6f, 0x59, 0x21, 0x27, 0x76, 0x4f, 0x92,
      0x1a, 0x50, 0x71, 0x6d]
     (Text (js ''test-kez'')) =
     Some [0xa2, 0x3c, 0xd5, 0xc2, 0xa0, 0x00, 0xf6, 0x36, 0xe7, 0x0d, 0x4d, 0x9c, 0xfa, 0xf1,
      0xe5]"
  by (simp add: ref_decrypt_def ref_aes256_cbc_decrypt_def key_bytes_def utf8_encode_test_kez
      sha256_test_kez split_blocks_one xor_bytes_def aes256_decrypt_hello ref_pkcs7_unpad_hello)

text \<open>Two strings that differ only in a surrogate without its partner have the same UTF-8
  bytes, hence the same derived key: to \<^verbatim>\<open>decrypt\<close> they are one key.\<close>

lemma lone_surrogate_keys:
  "Text [0xD800] \<noteq> Text [0xD801] \<and>
   \<not> dek_is_empty (Text [0xD800]) \<and> \<not> dek_is_empty (Text [0xD801]) \<and>
   deriveKey (Text [0xD800]) = deriveKey (Text [0xD801]) \<and>
   decrypt e (Text [0xD800]) = decrypt e (Text [0xD801])"
proof -
  have k: "deriveKey (Text [0xD800]) = deriveKey (Text [0xD801])"
    by (simp add: deriveKey_def is_high_surrogate_def is_low_surrogate_def)
  have "decrypt e (Text [0xD800]) = decrypt e (Text [0xD801])"
    unfolding decrypt_def k by (simp add: dek_is_empty_iff)
  then show ?thesis
    using k by (simp add: dek_is_empty_iff)
qed

text \<open>
  Claim C5. For every non-empty plaintext and all non-empty key materials \<open>k1 \<noteq> k2\<close>,
  decrypting under \<open>k2\<close> what was encrypted under \<open>k1\<close> fails with the decryption error,
  also when the keys differ in a single character. The code does not do so at the input
  below: the plaintext and both keys are non-empty, the keys \<^verbatim>\<open>test-key\<close> and \<^verbatim>\<open>test-kez\<close>
  differ in their last character, \<^verbatim>\<open>encrypt\<close> returns the envelope shown, and \<^verbatim>\<open>decrypt\<close> of
  it under the other key returns 15 bytes instead of failing.
\<close>

theorem wrong_key_accepted:
  "ascii ''Hello, World!'' \<noteq> [] \<and>
   \<not> dek_is_empty (Text (js ''test-key'')) \<and>
   \<not> dek_is_empty (Text (js ''test-kez'')) \<and>
   Text (js ''test-key'') \<noteq> Text (js ''test-kez'') \<and>
   fst (encrypt
      (source_of
         [0x00, 0x00, 0x00, 0x00, 0x00, 0x00, 0x00, 0x00, 0x00, 0x00, 0x00, 0x00, 0x00, 0x00,
      0x02, 0xcd])
      (ascii ''Hello, World!'') (Text (js ''test-key''))) =
     Inr [0x00, 0x00, 0x00, 0x00, 0x00, 0x00, 0x00, 0x00, 0x00, 0x00, 0x00, 0x00, 0x00, 0x00,
      0x02, 0xcd, 0x4f, 0x97, 0x21, 0x41, 0x59, 0x6f, 0x59, 0x21, 0x27, 0x76, 0x4f, 0x92,
      0x1a, 0x50, 0x71, 0x6d] \<and>
   decrypt
     [0x00, 0x00, 0x00, 0x00, 0x00, 0x00, 0x00, 0x00, 0x00, 0x00, 0x00, 0x00, 0x00, 0x00,
      0x02, 0xcd, 0x4f, 0x97, 0x21, 0x41, 0x59, 0x6f, 0x59, 0x21, 0x27, 0x76, 0x4f, 0x92,
      0x1a, 0x50, 0x71, 0x6d]
     (Text (js ''test-kez'')) =
     Inr [0xa2, 0x3c, 0xd5, 0xc2, 0xa0, 0x00, 0xf6, 0x36, 0xe7, 0x0d, 0x4d, 0x9c, 0xfa, 0xf1,
      0xe5]"
proof -
  have p: "ascii ''Hello, World!'' \<noteq> []"
    by (simp add: ascii_def)
  have k1: "\<not> dek_is_empty (Text (js ''test-key''))"
    by (simp add: dek_is_empty_iff js_def)
  have k2: "\<not> dek_is_empty (Text (js ''test-kez''))"
    by (simp add: dek_is_empty_iff js_def)
  have ne: "Text (js ''test-key'') \<noteq> Text (js ''test-kez'')"
    by (simp add: js_def)
  have enc: "fst (encrypt
      (source_of
         [0x00, 0x00, 0x00, 0x00, 0x00, 0x00, 0x00, 0x00, 0x00, 0x00, 0x00, 0x00, 0x00, 0x00,
      0x02, 0xcd])
      (ascii ''Hello, World!'') (Text (js ''test-key''))) =
     Inr [0x00, 0x00, 0x00, 0x00, 0x00, 0x00, 0x00, 0x00, 0x00, 0x00, 0x00, 0x00, 0x00, 0x00,
      0x02, 0xcd, 0x4f, 0x97, 0x21, 0x41, 0x59, 0x6f, 0x59, 0x21, 0x27, 0x76, 0x4f, 0x92,
      0x1a, 0x50, 0x71, 0x6d]"
    by (simp only: encrypt_reference [OF p k1] fst_conv randomBytes_source_of ref_encrypt_hello)
  have len: "16 < length
     ([0x00, 0x00, 0x00, 0x00, 0x00, 0x00, 0x00, 0x00, 0x00, 0x00, 0x00, 0x00, 0x00, 0x00,
      0x02, 0xcd, 0x4f, 0x97, 0x21, 0x41, 0x59, 0x6f, 0x59, 0x21, 0x27, 0x76, 0x4f, 0x92,
      0x1a, 0x50, 0x71, 0x6d] :: bytes)"
    by simp
  have dec: "decrypt
     [0x00, 0x00, 0x00, 0x00, 0x00, 0x00, 0x00, 0x00, 0x00, 0x00, 0x00, 0x00, 0x00, 0x00,
      0x02, 0xcd, 0x4f, 0x97, 0x21, 0x41, 0x59, 0x6f, 0x59, 0x21, 0x27, 0x76, 0x4f, 0x92,
      0x1a, 0x50, 0x71, 0x6d]
     (Text (js ''test-kez'')) =
     Inr [0xa2, 0x3c, 0xd5, 0xc2, 0xa0, 0x00, 0xf6, 0x36, 0xe7, 0x0d, 0x4d, 0x9c, 0xfa, 0xf1,
      0xe5]"
    by (simp only: decrypt_reference [OF len k2] ref_decrypt_hello option.case)
  show ?thesis
    using p k1 k2 ne enc dec by (intro conjI)
qed

end
